theory Spec2Isabelle
  imports Complex_Main "HOL-Library.Multiset" "HOL-Library.Sublist"
begin

section \<open>The weather page's core logic (src/app.js) as HOL functions\<close>

text \<open>
  The page script is modelled function by function. Conventions used throughout:
  \<^item> a JSON field that may be missing, \<open>null\<close> or \<open>undefined\<close> is an \<open>option\<close>;
    string-valued fields are \<open>string option\<close>, and JavaScript truthiness of such a
    field (\<open>if (x)\<close>, \<open>x || y\<close>) is "present and not the empty string";
  \<^item> a \<open>null\<close> list element behaves in every function below exactly like an object
    with no fields, so a feature is always a record;
  \<^item> a finite JavaScript number is a rational (every finite double is one); where an
    operation of the source rounds its result to a double, the model rounds too
    (\<open>toDouble\<close>); delays and times are integers far below \<open>2 ^ 53\<close> and are
    modelled by \<open>int\<close>;
  \<^item> a thrown exception or rejected promise is \<open>Inl\<close> of an \<open>error\<close>;
  \<^item> the network, \<open>Date.parse\<close>, \<open>Date.now\<close> and the \<open>URL\<close> parser are not code
    of the repository and are taken as parameters;
  \<^item> \<open>lat\<close> and \<open>lon\<close> only ever enter template strings, so they are modelled by
    their string renderings.
\<close>

subsection \<open>Errors and JavaScript helpers\<close>

datatype error =
    RequestTimedOut
  | RequestFailed nat
  | FetchError
  | CouldNotResolveEndpoints
  | NoRecentObservations

text \<open>\<open>x ? \<dots>\<close> on a string field: the string itself when it is truthy.\<close>

fun truthyStr :: "string option \<Rightarrow> string option" where
  "truthyStr None = None"
| "truthyStr (Some []) = None"
| "truthyStr (Some (c # cs)) = Some (c # cs)"

text \<open>\<open>a || b\<close> where \<open>b\<close> is a string.\<close>

definition orStr :: "string option \<Rightarrow> string \<Rightarrow> string" where
  "orStr a b = (case truthyStr a of Some s \<Rightarrow> s | None \<Rightarrow> b)"

text \<open>\<open>a || b\<close> where \<open>b\<close> may itself be missing.\<close>

definition orField :: "string option \<Rightarrow> string option \<Rightarrow> string option" where
  "orField a b = (case truthyStr a of Some s \<Rightarrow> Some s | None \<Rightarrow> b)"

text \<open>
  Rounding to the nearest double, ties going to the even significand. A positive number
  is scaled by powers of two into the range from \<open>2 ^ 52\<close> up to \<open>2 ^ 53\<close>, where the
  doubles are the integers, rounded there and scaled back. Overflow and subnormal
  numbers are left out: no operation below produces a non-zero number outside the range
  of normal doubles from a finite argument.
\<close>

definition roundHalfEven :: "rat \<Rightarrow> int" where
  "roundHalfEven x =
     (let f = \<lfloor>x\<rfloor>; r = x - of_int f
      in if r < 1 / 2 then f else if 1 / 2 < r then f + 1
         else if even f then f else f + 1)"

function scaleDown :: "rat \<Rightarrow> rat" where
  "scaleDown x = (if 2 ^ 53 \<le> x then 2 * scaleDown (x / 2) else of_int (roundHalfEven x))"
  by pat_completeness auto
termination
proof (relation "measure (\<lambda>x. nat \<lfloor>x\<rfloor>)")
  show "wf (measure (\<lambda>x::rat. nat \<lfloor>x\<rfloor>))" by simp
next
  fix x :: rat
  assume big: "2 ^ 53 \<le> x"
  have "(1::rat) \<le> 2 ^ 53" by simp
  then have one: "1 \<le> x" using big by (rule order_trans)
  have a: "of_int \<lfloor>x / 2\<rfloor> \<le> x / 2" by (rule of_int_floor_le)
  have b: "x < of_int \<lfloor>x\<rfloor> + 1" by linarith
  have "1 \<le> \<lfloor>x\<rfloor>" using one by simp
  then have c: "(1::rat) \<le> of_int \<lfloor>x\<rfloor>" by simp
  have "(of_int \<lfloor>x / 2\<rfloor> :: rat) < of_int \<lfloor>x\<rfloor>" using a b c by linarith
  then have "\<lfloor>x / 2\<rfloor> < \<lfloor>x\<rfloor>" by (simp only: of_int_less_iff)
  moreover have "0 < \<lfloor>x\<rfloor>" using one by simp
  ultimately have "nat \<lfloor>x / 2\<rfloor> < nat \<lfloor>x\<rfloor>" by simp
  then show "(x / 2, x) \<in> measure (\<lambda>x. nat \<lfloor>x\<rfloor>)"
    by (simp only: in_measure)
qed

function roundPos :: "rat \<Rightarrow> rat" where
  "roundPos x = (if 0 < x \<and> x < 2 ^ 52 then roundPos (2 * x) / 2 else scaleDown x)"
  by pat_completeness auto
termination
proof (relation "measure (\<lambda>x. nat \<lfloor>2 ^ 52 / x\<rfloor>)")
  show "wf (measure (\<lambda>x::rat. nat \<lfloor>2 ^ 52 / x\<rfloor>))" by simp
next
  fix x :: rat
  assume small: "0 < x \<and> x < 2 ^ 52"
  define y where "y = 2 ^ 52 / x"
  have one: "1 \<le> y" using small unfolding y_def by (simp only: le_divide_eq_1_pos) simp
  have e: "2 ^ 52 / (2 * x) = y / 2"
    unfolding y_def by (simp only: divide_divide_eq_left mult.commute)
  have a: "of_int \<lfloor>y / 2\<rfloor> \<le> y / 2" by (rule of_int_floor_le)
  have b: "y < of_int \<lfloor>y\<rfloor> + 1" by linarith
  have "1 \<le> \<lfloor>y\<rfloor>" using one by simp
  then have c: "(1::rat) \<le> of_int \<lfloor>y\<rfloor>" by simp
  have "(of_int \<lfloor>y / 2\<rfloor> :: rat) < of_int \<lfloor>y\<rfloor>" using a b c by linarith
  then have "\<lfloor>y / 2\<rfloor> < \<lfloor>y\<rfloor>" by (simp only: of_int_less_iff)
  moreover have "0 < \<lfloor>y\<rfloor>" using one by simp
  ultimately have "nat \<lfloor>y / 2\<rfloor> < nat \<lfloor>y\<rfloor>" by simp
  then show "(2 * x, x) \<in> measure (\<lambda>x. nat \<lfloor>2 ^ 52 / x\<rfloor>)"
    by (simp only: in_measure e) (simp only: y_def)
qed

declare scaleDown.simps [simp del] roundPos.simps [simp del]








text \<open>
  \<open>Array.prototype.sort(cmp)\<close>. A comparator result of \<open>NaN\<close> (here \<open>None\<close>) counts as
  \<open>+0\<close>. For a comparator that is a consistent ordering the language fixes the result
  (the stable sort); for any other it leaves the result to the engine. The model follows
  V8 (Chrome, Edge, Node): an array of fewer than 64 elements is sorted by taking the
  longest run at its front that is already ascending, or strictly descending and then
  reversed, and inserting each remaining element into it by binary search.
\<close>

definition sortCompare :: "('a \<Rightarrow> 'a \<Rightarrow> int option) \<Rightarrow> 'a \<Rightarrow> 'a \<Rightarrow> int" where
  "sortCompare cmp x y = (case cmp x y of None \<Rightarrow> 0 | Some v \<Rightarrow> v)"

text \<open>The elements that continue the run after \<open>previous\<close>, and those left over.\<close>

fun takeRun ::
  "('a \<Rightarrow> 'a \<Rightarrow> int option) \<Rightarrow> bool \<Rightarrow> 'a \<Rightarrow> 'a list \<Rightarrow> 'a list \<times> 'a list" where
  "takeRun cmp descending previous [] = ([], [])"
| "takeRun cmp descending previous (x # xs) =
     (let order = sortCompare cmp x previous
      in if (if descending then 0 \<le> order else order < 0) then ([], x # xs)
         else (case takeRun cmp descending x xs of (run, rest) \<Rightarrow> (x # run, rest)))"

definition countAndMakeRun ::
  "('a \<Rightarrow> 'a \<Rightarrow> int option) \<Rightarrow> 'a list \<Rightarrow> 'a list \<times> 'a list" where
  "countAndMakeRun cmp xs =
     (case xs of
        [] \<Rightarrow> ([], [])
      | [x] \<Rightarrow> ([x], [])
      | x # y # ys \<Rightarrow>
          (let descending = (sortCompare cmp y x < 0)
           in case takeRun cmp descending y ys of
                (run, rest) \<Rightarrow>
                  (if descending then rev (x # y # run) else x # y # run, rest)))"

text \<open>
  The binary search for the place of \<open>pivot\<close> in the sorted part \<open>srt\<close>: the middle
  element decides whether the search goes on in the part before it or in the part
  behind it.
\<close>

function binaryInsert :: "('a \<Rightarrow> 'a \<Rightarrow> int option) \<Rightarrow> 'a \<Rightarrow> 'a list \<Rightarrow> 'a list" where
  "binaryInsert cmp pivot srt =
     (if srt = [] then [pivot]
      else if sortCompare cmp pivot (srt ! (length srt div 2)) < 0
           then binaryInsert cmp pivot (take (length srt div 2) srt)
                @ drop (length srt div 2) srt
           else take (Suc (length srt div 2)) srt
                @ binaryInsert cmp pivot (drop (Suc (length srt div 2)) srt))"
  by pat_completeness auto
termination
  by (relation "measure (\<lambda>(cmp, pivot, srt). length srt)") auto

declare binaryInsert.simps [simp del]

text \<open>
  An array of 64 elements or more is cut into such runs, which the engine then merges.
  For those the model is the stable insertion sort: it is the engine's result whenever
  the comparator is a consistent ordering, and nothing below relies on it otherwise.
\<close>

fun insertSorted :: "('a \<Rightarrow> 'a \<Rightarrow> int option) \<Rightarrow> 'a \<Rightarrow> 'a list \<Rightarrow> 'a list" where
  "insertSorted cmp x [] = [x]"
| "insertSorted cmp x (y # ys) =
     (if sortCompare cmp x y < 0 then x # y # ys else y # insertSorted cmp x ys)"

definition arraySort :: "('a \<Rightarrow> 'a \<Rightarrow> int option) \<Rightarrow> 'a list \<Rightarrow> 'a list" where
  "arraySort cmp xs =
     (if length xs < 64
      then (case countAndMakeRun cmp xs of
              (run, rest) \<Rightarrow> foldl (\<lambda>srt pivot. binaryInsert cmp pivot srt) run rest)
      else foldl (\<lambda>acc x. insertSorted cmp x acc) [] xs)"

text \<open>\<open>Array.from(new Set(xs))\<close>: the first occurrence of each element, in order.\<close>

definition setToArray :: "'a list \<Rightarrow> 'a list" where
  "setToArray xs = rev (remdups (rev xs))"

text \<open>\<open>s.split(c)\<close> for a one-character separator.\<close>

fun splitOn :: "char \<Rightarrow> string \<Rightarrow> string list" where
  "splitOn c [] = [[]]"
| "splitOn c (x # xs) =
     (if x = c then [] # splitOn c xs
      else (case splitOn c xs of [] \<Rightarrow> [[x]] | s # ss \<Rightarrow> (x # s) # ss))"

subsection \<open>Formatting helpers: \<open>degToCompass\<close>\<close>




subsection \<open>Alert features\<close>

record alertProps =
  pid :: "string option"
  atId :: "string option"
  sent :: "string option"
  effective :: "string option"
  onset :: "string option"
  event :: "string option"
  severity :: "string option"
  ugc :: "string list option"

text \<open>
  \<open>pid\<close> is \<open>properties.id\<close>, \<open>atId\<close> is \<open>properties['@id']\<close>, and \<open>ugc\<close> is
  \<open>properties.geocode.UGC\<close> when that is an array.
\<close>

record feature =
  fid :: "string option"
  properties :: "alertProps option"

definition emptyProps :: alertProps where
  "emptyProps = \<lparr>pid = None, atId = None, sent = None, effective = None, onset = None,
                 event = None, severity = None, ugc = None\<rparr>"

text \<open>\<open>f?.properties || {}\<close>\<close>

definition propsOf :: "feature \<Rightarrow> alertProps" where
  "propsOf f = (case properties f of None \<Rightarrow> emptyProps | Some p \<Rightarrow> p)"

text \<open>
  \<open>SEVERITY_ORDER\<close> is an object literal, given here by its own properties. Reading
  \<open>obj[key]\<close> on such an object finds an own property first and then the properties
  every object inherits from \<open>Object.prototype\<close>, whose values are functions (an object,
  for \<open>__proto__\<close>), one for each name; \<open>Obj n\<close> is the value inherited under the
  name \<open>n\<close>.
\<close>

datatype jsval = Num int | Obj string

definition SEVERITY_ORDER :: "(string \<times> int) list" where
  "SEVERITY_ORDER = [(''Extreme'', 5), (''Severe'', 4), (''Moderate'', 3),
                     (''Minor'', 2), (''Unknown'', 1)]"

definition objectPrototypeNames :: "string list" where
  "objectPrototypeNames =
     [''constructor'', ''hasOwnProperty'', ''isPrototypeOf'', ''propertyIsEnumerable'',
      ''toLocaleString'', ''toString'', ''valueOf'', ''__proto__'',
      ''__defineGetter__'', ''__defineSetter__'', ''__lookupGetter__'', ''__lookupSetter__'']"

definition getProperty :: "(string \<times> int) list \<Rightarrow> string \<Rightarrow> jsval option" where
  "getProperty obj key =
     (case map_of obj key of
        Some n \<Rightarrow> Some (Num n)
      | None \<Rightarrow> if key \<in> set objectPrototypeNames then Some (Obj key) else None)"

text \<open>\<open>v || 0\<close>: the number 0 is the only falsy value \<open>v\<close> can be.\<close>

definition orZero :: "jsval option \<Rightarrow> jsval" where
  "orZero v = (case v of None \<Rightarrow> Num 0 | Some (Num n) \<Rightarrow> Num n | Some (Obj k) \<Rightarrow> Obj k)"

text \<open>\<open>x - y\<close>: a function or object operand converts to \<open>NaN\<close>.\<close>

fun jsSub :: "jsval \<Rightarrow> jsval \<Rightarrow> int option" where
  "jsSub (Num x) (Num y) = Some (x - y)"
| "jsSub _ _ = None"

definition alertKey :: "feature \<Rightarrow> string" where
  "alertKey f =
     (case truthyStr (fid f) of
        Some k \<Rightarrow> k
      | None \<Rightarrow>
          (let p = propsOf f in
           case truthyStr (pid p) of
             Some k \<Rightarrow> k
           | None \<Rightarrow>
               (case truthyStr (atId p) of
                  Some k \<Rightarrow> k
                | None \<Rightarrow>
                    (let sentv = orStr (sent p) (orStr (effective p) (orStr (onset p) ''''))
                     in orStr (event p) ''Unknown'' @ ''|'' @ sentv))))"

text \<open>
  The identity key as the specification words it: the feature id when it is present,
  otherwise the event name joined to a timestamp of the feature. The wording does not say
  which fields count, so every timestamp the key function reads is admitted.
\<close>

definition specKeyCandidates :: "feature \<Rightarrow> string list" where
  "specKeyCandidates f =
     (case truthyStr (fid f) of
        Some k \<Rightarrow> [k]
      | None \<Rightarrow>
          (let p = propsOf f
           in map (\<lambda>t. orStr (event p) ''Unknown'' @ ''|'' @ t)
                (List.map_filter truthyStr [sent p, effective p, onset p])))"

definition zonesFromAlert :: "feature \<Rightarrow> string list" where
  "zonesFromAlert f =
     (case properties f of
        None \<Rightarrow> []
      | Some p \<Rightarrow> (case ugc p of None \<Rightarrow> [] | Some zs \<Rightarrow> zs))"

subsection \<open>The network, as seen by the functions below\<close>

record points =
  forecastZone :: "string option"
  county :: "string option"
  fireWeatherZone :: "string option"
  forecastHourly :: "string option"
  forecast :: "string option"
  observationStations :: "string option"

text \<open>
  The three zone fields are \<open>None\<close> when missing or not a string. An alerts URL is
  determined by its query, so the alert requests are keyed by the query.
\<close>

datatype alertsQuery = ByZone string | ByPoint string string

record observation =
  temperature :: "rat option"
  relativeHumidity :: "rat option"
  windSpeed :: "rat option"
  windDirection :: "rat option"
  textDescription :: "string option"
  timestamp :: "string option"

text \<open>
  Each numeric field is \<open>p.field.value\<close>, \<open>None\<close> when the field or its value is missing.
  \<open>getAlerts\<close> answers with \<open>resp.features\<close> (\<open>None\<close> when the body has none), and
  \<open>getLatest\<close> with \<open>latest.properties\<close>.
\<close>

record network =
  getPoints :: "string \<Rightarrow> string \<Rightarrow> error + points"
  getAlerts :: "alertsQuery \<Rightarrow> error + feature list option"
  getLatest :: "string \<Rightarrow> error + observation option"

subsection \<open>Alert aggregation: \<open>fetchAlertsCombined\<close>\<close>

text \<open>
  \<open>urlPathname u\<close> is \<open>new URL(u).pathname\<close>, or \<open>None\<close> when the constructor throws.
\<close>

definition zoneCode :: "(string \<Rightarrow> string option) \<Rightarrow> string option \<Rightarrow> string option" where
  "zoneCode urlPathname zUrl =
     (case truthyStr zUrl of
        None \<Rightarrow> None
      | Some u \<Rightarrow>
          (case urlPathname u of
             Some path \<Rightarrow>
               (let segs = filter (\<lambda>s. s \<noteq> []) (splitOn CHR ''/'' path)
                in if segs = [] then None else Some (last segs))
           | None \<Rightarrow> Some (last (splitOn CHR ''/'' u))))"

definition zoneCodesFromPoints :: "(string \<Rightarrow> string option) \<Rightarrow> points \<Rightarrow> string list" where
  "zoneCodesFromPoints urlPathname pts =
     setToArray
       (List.map_filter truthyStr
          [zoneCode urlPathname (forecastZone pts),
           zoneCode urlPathname (county pts),
           zoneCode urlPathname (fireWeatherZone pts)])"

record request =
  label :: string
  query :: alertsQuery

record result =
  rlabel :: string
  rquery :: alertsQuery
  ok :: bool
  features :: "feature list"

definition runRequest :: "network \<Rightarrow> request \<Rightarrow> result" where
  "runRequest net r =
     (case getAlerts net (query r) of
        Inr resp \<Rightarrow>
          \<lparr>rlabel = label r, rquery = query r, ok = True,
           features = (case resp of None \<Rightarrow> [] | Some fs \<Rightarrow> fs)\<rparr>
      | Inl e \<Rightarrow> \<lparr>rlabel = label r, rquery = query r, ok = False, features = []\<rparr>)"

text \<open>
  What one alerts query contributes: the features of its response, and nothing when the
  request fails or the body has no feature list.
\<close>

definition queryFeatures :: "network \<Rightarrow> alertsQuery \<Rightarrow> feature list" where
  "queryFeatures net q = features (runRequest net \<lparr>label = [], query = q\<rparr>)"

definition alertResults :: "network \<Rightarrow> string list \<Rightarrow> string \<Rightarrow> string \<Rightarrow> result list" where
  "alertResults net zoneCodes lat lon =
     (let zoneReqs = map (\<lambda>z. \<lparr>label = ''zone:'' @ z, query = ByZone z\<rparr>) zoneCodes;
          pointReq = \<lparr>label = ''point:'' @ lat @ '','' @ lon, query = ByPoint lat lon\<rparr>;
          reqs = zoneReqs @ [pointReq]
      in map (runRequest net) reqs)"

definition pointFeatures :: "result list \<Rightarrow> feature list" where
  "pointFeatures results =
     (case find (\<lambda>r. prefix ''point:'' (rlabel r)) results of
        None \<Rightarrow> []
      | Some r \<Rightarrow> features r)"

definition zoneFeaturesAll :: "result list \<Rightarrow> feature list" where
  "zoneFeaturesAll results =
     concat (map features (filter (\<lambda>r. prefix ''zone:'' (rlabel r)) results))"

definition zoneFiltered :: "string list \<Rightarrow> feature list \<Rightarrow> feature list" where
  "zoneFiltered zoneCodes fs =
     filter (\<lambda>f. list_ex (\<lambda>z. z \<in> set zoneCodes) (zonesFromAlert f)) fs"

text \<open>The loop over \<open>all\<close> with its \<open>seen\<close> set and its \<open>unique\<close> array.\<close>

fun dedupLoop :: "string set \<Rightarrow> feature list \<Rightarrow> feature list \<Rightarrow> feature list" where
  "dedupLoop seen unique [] = unique"
| "dedupLoop seen unique (f # fs) =
     (let key = alertKey f
      in if key \<in> seen then dedupLoop seen unique fs
         else dedupLoop (insert key seen) (unique @ [f]) fs)"

text \<open>The array \<open>all\<close>: the point query's features, then the filtered zone features.\<close>

definition allAlerts :: "network \<Rightarrow> string list \<Rightarrow> string \<Rightarrow> string \<Rightarrow> feature list" where
  "allAlerts net zoneCodes lat lon =
     (let results = alertResults net zoneCodes lat lon
      in pointFeatures results @ zoneFiltered zoneCodes (zoneFeaturesAll results))"

definition fetchAlertsCombined ::
  "network \<Rightarrow> (string \<Rightarrow> string option) \<Rightarrow> string \<Rightarrow> string \<Rightarrow> error + feature list" where
  "fetchAlertsCombined net urlPathname lat lon =
     (case getPoints net lat lon of
        Inl e \<Rightarrow> Inl e
      | Inr pts \<Rightarrow>
          (let zoneCodes = zoneCodesFromPoints urlPathname pts;
               all = allAlerts net zoneCodes lat lon
           in Inr (dedupLoop {} [] all)))"

subsection \<open>Rendering the alerts: the order in which the cards are produced\<close>

text \<open>
  \<open>SEVERITY_ORDER[a?.properties?.severity] || 0\<close>; a missing severity reads the key
  \<open>undefined\<close>, which no object has.
\<close>

definition severityRank :: "feature \<Rightarrow> jsval" where
  "severityRank a =
     (case properties a of
        None \<Rightarrow> Num 0
      | Some p \<Rightarrow>
          (case severity p of
             None \<Rightarrow> Num 0
           | Some s \<Rightarrow> orZero (getProperty SEVERITY_ORDER s)))"

text \<open>
  \<open>new Date(onset || effective || Date.now()).getTime()\<close>. \<open>parseDate s\<close> is the time
  value of \<open>new Date(s)\<close>, \<open>None\<close> for an invalid date (\<open>NaN\<close>); \<open>now\<close> is the reading
  of the clock, taken to be the same throughout one sort.
\<close>

definition alertTime :: "(string \<Rightarrow> int option) \<Rightarrow> int \<Rightarrow> feature \<Rightarrow> int option" where
  "alertTime parseDate now a =
     (case truthyStr (orField (onset (propsOf a)) (effective (propsOf a))) of
        None \<Rightarrow> Some now
      | Some t \<Rightarrow> parseDate t)"

definition compareAlerts ::
  "(string \<Rightarrow> int option) \<Rightarrow> int \<Rightarrow> feature \<Rightarrow> feature \<Rightarrow> int option" where
  "compareAlerts parseDate now a b =
     (let sa = severityRank a; sb = severityRank b
      in if sb \<noteq> sa then jsSub sb sa
         else (case (alertTime parseDate now a, alertTime parseDate now b) of
                 (Some ta, Some tb) \<Rightarrow> Some (ta - tb)
               | _ \<Rightarrow> None))"

record renderResult =
  activeCount :: nat
  hadError :: bool

text \<open>
  \<open>renderAlertsForPrimary\<close> without the document: the features in the order in which
  their cards are appended, and the value returned. The page elements are taken to exist.
\<close>

definition renderAlertsForPrimary ::
  "network \<Rightarrow> (string \<Rightarrow> string option) \<Rightarrow> (string \<Rightarrow> int option) \<Rightarrow> int \<Rightarrow>
   string \<Rightarrow> string \<Rightarrow> feature list \<times> renderResult" where
  "renderAlertsForPrimary net urlPathname parseDate now lat lon =
     (case fetchAlertsCombined net urlPathname lat lon of
        Inl e \<Rightarrow> ([], \<lparr>activeCount = 0, hadError = True\<rparr>)
      | Inr active \<Rightarrow>
          (if active = [] then ([], \<lparr>activeCount = 0, hadError = False\<rparr>)
           else (let sorted = arraySort (compareAlerts parseDate now) active
                 in (sorted, \<lparr>activeCount = length sorted, hadError = False\<rparr>))))"

text \<open>The order the specification describes: severity downwards, then time upwards.\<close>

fun timeLe :: "int option \<Rightarrow> int option \<Rightarrow> bool" where
  "timeLe (Some x) (Some y) = (x \<le> y)"
| "timeLe _ _ = False"

definition specSeverityRank :: "feature \<Rightarrow> int" where
  "specSeverityRank a =
     (case severity (propsOf a) of
        None \<Rightarrow> 0
      | Some s \<Rightarrow>
          if s = ''Extreme'' then 5 else if s = ''Severe'' then 4
          else if s = ''Moderate'' then 3 else if s = ''Minor'' then 2
          else if s = ''Unknown'' then 1 else 0)"

definition specAlertOrder ::
  "(string \<Rightarrow> int option) \<Rightarrow> int \<Rightarrow> feature \<Rightarrow> feature \<Rightarrow> bool" where
  "specAlertOrder parseDate now a b =
     (specSeverityRank b < specSeverityRank a \<or>
      (specSeverityRank a = specSeverityRank b \<and>
       timeLe (alertTime parseDate now a) (alertTime parseDate now b)))"

text \<open>A severity that is not the name of an inherited property.\<close>

definition plainSeverity :: "feature \<Rightarrow> bool" where
  "plainSeverity a =
     (case severity (propsOf a) of
        None \<Rightarrow> True
      | Some s \<Rightarrow> s \<notin> set objectPrototypeNames)"

subsection \<open>The auto-refresh scheduler: \<open>startAlertsAutoRefresh\<close>\<close>

record refreshOpts =
  optIntervalMs :: "int option"
  optMaxBackoffMs :: "int option"

definition intervalMs :: "refreshOpts \<Rightarrow> int" where
  "intervalMs opts = (case optIntervalMs opts of None \<Rightarrow> 5 * 60 * 1000 | Some v \<Rightarrow> v)"

definition maxBackoffMs :: "refreshOpts \<Rightarrow> int" where
  "maxBackoffMs opts = (case optMaxBackoffMs opts of None \<Rightarrow> 30 * 60 * 1000 | Some v \<Rightarrow> v)"

text \<open>
  \<open>timerId\<close> is \<open>None\<close> for \<open>null\<close>, and otherwise the delay the timer it names was
  armed with.
\<close>

record refreshState =
  nextDelay :: int
  timerId :: "int option"
  running :: bool

definition startAlertsAutoRefresh :: "refreshOpts \<Rightarrow> refreshState" where
  "startAlertsAutoRefresh opts =
     \<lparr>nextDelay = intervalMs opts, timerId = Some (intervalMs opts), running = False\<rparr>"

text \<open>
  A tick is asynchronous: it begins (and returns at once if another is running), the
  render settles, and the tick finishes. Other events can fall in between.
\<close>

definition tickBegin :: "refreshState \<Rightarrow> refreshState" where
  "tickBegin s = (if running s then s else s\<lparr>running := True\<rparr>)"

definition tickFinish :: "refreshOpts \<Rightarrow> error + renderResult \<Rightarrow> refreshState \<Rightarrow> refreshState" where
  "tickFinish opts r s =
     (let d = (case r of
                 Inr res \<Rightarrow>
                   (if hadError res then min (nextDelay s * 2) (maxBackoffMs opts)
                    else intervalMs opts)
               | Inl e \<Rightarrow> min (nextDelay s * 2) (maxBackoffMs opts))
      in s\<lparr>nextDelay := d, running := False, timerId := Some d\<rparr>)"

text \<open>A whole tick whose render settles with \<open>r\<close>, nothing falling in between.\<close>

definition failed :: "error + renderResult \<Rightarrow> bool" where
  "failed r = (case r of Inl e \<Rightarrow> True | Inr res \<Rightarrow> hadError res)"

definition tick :: "refreshOpts \<Rightarrow> error + renderResult \<Rightarrow> refreshState \<Rightarrow> refreshState" where
  "tick opts r s = (if running s then s else tickFinish opts r (s\<lparr>running := True\<rparr>))"

datatype event =
    TickBegins
  | TickSettles "error + renderResult"
  | PageHidden
  | PageVisible
  | Cancelled

text \<open>A render can only settle inside a running tick.\<close>

fun step :: "refreshOpts \<Rightarrow> refreshState \<Rightarrow> event \<Rightarrow> refreshState" where
  "step opts s TickBegins = tickBegin s"
| "step opts s (TickSettles r) = (if running s then tickFinish opts r s else s)"
| "step opts s PageHidden = s\<lparr>timerId := None\<rparr>"
| "step opts s PageVisible = (if timerId s = None then s\<lparr>timerId := Some 1000\<rparr> else s)"
| "step opts s Cancelled = s\<lparr>timerId := None\<rparr>"

definition runEvents :: "refreshOpts \<Rightarrow> event list \<Rightarrow> refreshState" where
  "runEvents opts evs = foldl (step opts) (startAlertsAutoRefresh opts) evs"

subsection \<open>The endpoint cache: \<open>resolveEndpointsForPoint\<close>\<close>

record endpointSet =
  hourlyUrl :: string
  dailyUrl :: string
  stationsUrl :: string

text \<open>
  The module state: the cache, and a log of the \<open>/points\<close> requests made so far, each
  entry the coordinates that were asked for.
\<close>

record world =
  endpointCache :: "string \<Rightarrow> endpointSet option"
  pointsRequests :: "(string \<times> string) list"

definition keyFromLatLon :: "string \<Rightarrow> string \<Rightarrow> string" where
  "keyFromLatLon lat lon = lat @ '','' @ lon"

definition resolveEndpointsForPoint ::
  "network \<Rightarrow> world \<Rightarrow> string \<Rightarrow> string \<Rightarrow> (error + endpointSet) \<times> world" where
  "resolveEndpointsForPoint net w lat lon =
     (let key = keyFromLatLon lat lon
      in case endpointCache w key of
           Some v \<Rightarrow> (Inr v, w)
         | None \<Rightarrow>
             (let w1 = w\<lparr>pointsRequests := pointsRequests w @ [(lat, lon)]\<rparr>
              in case getPoints net lat lon of
                   Inl e \<Rightarrow> (Inl e, w1)
                 | Inr pts \<Rightarrow>
                     (case (truthyStr (forecastHourly pts), truthyStr (forecast pts),
                            truthyStr (observationStations pts)) of
                        (Some h, Some d, Some s) \<Rightarrow>
                          (let v = \<lparr>hourlyUrl = h, dailyUrl = d, stationsUrl = s\<rparr>
                           in (Inr v, w1\<lparr>endpointCache := (endpointCache w1)(key := Some v)\<rparr>))
                      | _ \<Rightarrow> (Inl CouldNotResolveEndpoints, w1))))"

text \<open>Any number of further resolutions, each with its own network and coordinates.\<close>

fun resolveMany :: "world \<Rightarrow> (network \<times> string \<times> string) list \<Rightarrow> world" where
  "resolveMany w [] = w"
| "resolveMany w ((net, lat, lon) # cs) =
     resolveMany (snd (resolveEndpointsForPoint net w lat lon)) cs"

subsection \<open>The observation selector: \<open>getNearestObservationParallel\<close>\<close>

datatype settled = Rejected | Fulfilled "observation option"

definition score :: "observation \<Rightarrow> int" where
  "score p =
     (let hasTemp = (temperature p \<noteq> None);
          hasHumidity = (relativeHumidity p \<noteq> None);
          hasWindSpd = (windSpeed p \<noteq> None);
          hasWindDir = (windDirection p \<noteq> None);
          hasDesc = (truthyStr (textDescription p) \<noteq> None)
      in if hasTemp \<and> hasHumidity \<and> hasWindSpd \<and> hasWindDir then 3
         else if hasTemp \<and> hasDesc then 2
         else if hasTemp \<or> hasDesc then 1
         else 0)"

definition obsTime :: "(string \<Rightarrow> int option) \<Rightarrow> int \<Rightarrow> observation \<Rightarrow> int option" where
  "obsTime parseDate now p =
     (case truthyStr (timestamp p) of None \<Rightarrow> Some now | Some t \<Rightarrow> parseDate t)"

definition compareObs ::
  "(string \<Rightarrow> int option) \<Rightarrow> int \<Rightarrow> observation \<Rightarrow> observation \<Rightarrow> int option" where
  "compareObs parseDate now a b =
     (let sa = score a; sb = score b
      in if sb \<noteq> sa then Some (sb - sa)
         else (case (obsTime parseDate now a, obsTime parseDate now b) of
                 (Some ta, Some tb) \<Rightarrow> Some (ta - tb)
               | _ \<Rightarrow> None))"

text \<open>The fulfilled results that carry a properties body, in the order of the requests.\<close>

fun candidates :: "settled list \<Rightarrow> observation list" where
  "candidates [] = []"
| "candidates (Fulfilled (Some p) # rs) = p # candidates rs"
| "candidates (r # rs) = candidates rs"

definition selectObservation ::
  "(string \<Rightarrow> int option) \<Rightarrow> int \<Rightarrow> settled list \<Rightarrow> error + observation" where
  "selectObservation parseDate now results =
     (case arraySort (compareObs parseDate now) (candidates results) of
        [] \<Rightarrow> Inl NoRecentObservations
      | p # ps \<Rightarrow> Inr p)"

text \<open>
  \<open>stations\<close> is \<open>stations.features\<close> (\<open>None\<close> when missing), each feature given by its
  \<open>id\<close>. \<open>stationResults\<close> is the array \<open>results\<close> that \<open>Promise.allSettled\<close> yields.
\<close>

definition stationResults :: "network \<Rightarrow> string option list option \<Rightarrow> settled list" where
  "stationResults net stations =
     (let feats = (case stations of None \<Rightarrow> [] | Some fs \<Rightarrow> fs);
          subset = List.map_filter truthyStr (take 10 feats)
      in map (\<lambda>i. case getLatest net i of
                      Inl e \<Rightarrow> Rejected
                    | Inr p \<Rightarrow> Fulfilled p) subset)"

definition getNearestObservationParallel ::
  "network \<Rightarrow> (string \<Rightarrow> int option) \<Rightarrow> int \<Rightarrow> string option list option \<Rightarrow>
   error + observation" where
  "getNearestObservationParallel net parseDate now stations =
     (let results = stationResults net stations
      in selectObservation parseDate now results)"

subsection \<open>Example data\<close>

text \<open>
  A point in the forecast zone TX209 and the county TX453, whose fire-weather zone is
  TX209 again. The stand-in for the URL parser knows the URLs of the API host only.
\<close>

definition exUrlPathname :: "string \<Rightarrow> string option" where
  "exUrlPathname u =
     (if prefix ''https://api.weather.gov'' u then Some (drop 23 u) else None)"

definition exPoints :: points where
  "exPoints =
     \<lparr>forecastZone = Some ''https://api.weather.gov/zones/forecast/TX209'',
      county = Some ''https://api.weather.gov/zones/county/TX453'',
      fireWeatherZone = Some ''https://api.weather.gov/zones/fire/TX209'',
      forecastHourly = Some ''https://api.weather.gov/gridpoints/EWX/158,105/forecast/hourly'',
      forecast = Some ''https://api.weather.gov/gridpoints/EWX/158,105/forecast'',
      observationStations = Some ''https://api.weather.gov/gridpoints/EWX/158,105/stations''\<rparr>"

definition exHeat :: feature where
  "exHeat = \<lparr>fid = Some ''urn:heat'', properties = Some (emptyProps
     \<lparr>onset := Some ''2024-05-01T09:00:00Z'', event := Some ''Heat Advisory'',
      severity := Some ''Minor'', ugc := Some [''TX209'']\<rparr>)\<rparr>"

definition exFlood :: feature where
  "exFlood = \<lparr>fid = Some ''urn:flood'', properties = Some (emptyProps
     \<lparr>onset := Some ''2024-05-01T06:00:00Z'', event := Some ''Flash Flood Warning'',
      severity := Some ''Extreme'', ugc := Some [''TX453'']\<rparr>)\<rparr>"

text \<open>The same alert as the zone query reports it: same id, different content.\<close>

definition exFloodZone :: feature where
  "exFloodZone = \<lparr>fid = Some ''urn:flood'', properties = Some (emptyProps
     \<lparr>effective := Some ''2024-05-01T06:00:00Z'', event := Some ''Flash Flood Warning'',
      severity := Some ''Extreme'', ugc := Some [''TX453'', ''TX454'']\<rparr>)\<rparr>"

definition exWind :: feature where
  "exWind = \<lparr>fid = None, properties = Some (emptyProps
     \<lparr>effective := Some ''2024-05-01T09:00:00Z'', event := Some ''Wind Advisory'',
      severity := Some ''Severe'', ugc := Some [''ZZ999'', ''TX453'']\<rparr>)\<rparr>"

definition exNoise :: feature where
  "exNoise = \<lparr>fid = Some ''urn:noise'', properties = Some (emptyProps
     \<lparr>event := Some ''Dust Advisory'', severity := Some ''Moderate'',
      ugc := Some [''ZZ999'']\<rparr>)\<rparr>"

definition exObsA :: observation where
  "exObsA = \<lparr>temperature = Some 31, relativeHumidity = Some 40, windSpeed = Some 12,
             windDirection = Some 180, textDescription = None,
             timestamp = Some ''2024-05-01T09:00:00Z''\<rparr>"

definition exObsB :: observation where
  "exObsB = \<lparr>temperature = Some 30, relativeHumidity = None, windSpeed = None,
             windDirection = None, textDescription = None,
             timestamp = Some ''2024-05-01T06:00:00Z''\<rparr>"

text \<open>
  Two more observations with a temperature only, the second with a timestamp that is no
  date, and a network of five stations: \<open>A\<close>, \<open>X\<close>, \<open>Y\<close> and \<open>Z\<close> report, every other one
  times out.
\<close>

definition exObsX :: observation where
  "exObsX = \<lparr>temperature = Some 29, relativeHumidity = None, windSpeed = None,
             windDirection = None, textDescription = None,
             timestamp = Some ''2024-05-01T09:00:00Z''\<rparr>"

definition exObsY :: observation where
  "exObsY = \<lparr>temperature = Some 28, relativeHumidity = None, windSpeed = None,
             windDirection = None, textDescription = None,
             timestamp = Some ''garbage''\<rparr>"

definition exGarbledNet :: network where
  "exGarbledNet =
     \<lparr>getPoints = (\<lambda>lat lon. Inl FetchError),
      getAlerts = (\<lambda>q. Inl FetchError),
      getLatest = (\<lambda>i. if i = ''A'' then Inr (Some exObsA)
                         else if i = ''X'' then Inr (Some exObsX)
                         else if i = ''Y'' then Inr (Some exObsY)
                         else if i = ''Z'' then Inr (Some exObsB)
                         else Inl RequestTimedOut)\<rparr>"

definition exNet :: network where
  "exNet =
     \<lparr>getPoints = (\<lambda>lat lon. Inr exPoints),
      getAlerts = (\<lambda>q. case q of
          ByPoint lat lon \<Rightarrow> Inr (Some [exHeat, exFlood])
        | ByZone z \<Rightarrow>
            if z = ''TX209'' then Inr (Some [exFloodZone, exNoise])
            else if z = ''TX453'' then Inr (Some [exWind, exHeat])
            else Inl (RequestFailed 404)),
      getLatest = (\<lambda>i. if i = ''A'' then Inr (Some exObsA)
                         else if i = ''B'' then Inr (Some exObsB)
                         else Inl RequestTimedOut)\<rparr>"

text \<open>A quiet day: nothing for the point, noise for one zone, a failure for the other.\<close>

definition exQuietNet :: network where
  "exQuietNet =
     \<lparr>getPoints = (\<lambda>lat lon. Inr exPoints),
      getAlerts = (\<lambda>q. case q of
          ByPoint lat lon \<Rightarrow> Inr (Some [])
        | ByZone z \<Rightarrow>
            if z = ''TX209'' then Inr (Some [exNoise]) else Inl RequestTimedOut),
      getLatest = (\<lambda>i. Inl RequestTimedOut)\<rparr>"

definition exDownNet :: network where
  "exDownNet =
     \<lparr>getPoints = (\<lambda>lat lon. Inl FetchError),
      getAlerts = (\<lambda>q. Inl FetchError),
      getLatest = (\<lambda>i. Inl FetchError)\<rparr>"

text \<open>An alert whose severity string is not one of the five, and a network reporting it.\<close>

definition exOdd :: feature where
  "exOdd = \<lparr>fid = Some ''urn:odd'', properties = Some (emptyProps
     \<lparr>onset := Some ''2024-05-01T06:00:00Z'', event := Some ''Test Message'',
      severity := Some ''constructor'', ugc := Some [''TX209'']\<rparr>)\<rparr>"

definition exOddNet :: network where
  "exOddNet =
     \<lparr>getPoints = (\<lambda>lat lon. Inr exPoints),
      getAlerts = (\<lambda>q. case q of
          ByPoint lat lon \<Rightarrow> Inr (Some [exOdd, exFlood])
        | ByZone z \<Rightarrow> Inr (Some [])),
      getLatest = (\<lambda>i. Inl RequestTimedOut)\<rparr>"

definition exParseDate :: "string \<Rightarrow> int option" where
  "exParseDate = map_of [(''2024-05-01T06:00:00Z'', 1714543200000),
                         (''2024-05-01T09:00:00Z'', 1714554000000)]"

definition exWorld :: world where
  "exWorld = \<lparr>endpointCache = (\<lambda>k. None), pointsRequests = []\<rparr>"

definition exEndpoints :: endpointSet where
  "exEndpoints =
     \<lparr>hourlyUrl = ''https://api.weather.gov/gridpoints/EWX/158,105/forecast/hourly'',
      dailyUrl = ''https://api.weather.gov/gridpoints/EWX/158,105/forecast'',
      stationsUrl = ''https://api.weather.gov/gridpoints/EWX/158,105/stations''\<rparr>"

text \<open>The module state after one resolution of the example point on an empty cache.\<close>

definition exWorld1 :: world where
  "exWorld1 = snd (resolveEndpointsForPoint exNet exWorld ''30.5'' ''-97.6'')"

section \<open>Properties\<close>

subsection \<open>Wind direction as a compass point\<close>








































subsection \<open>Backoff of the auto-refresh scheduler\<close>

lemma tick_nextDelay:
  "\<not> running s \<Longrightarrow>
   nextDelay (tick opts r s) =
     (if failed r then min (nextDelay s * 2) (maxBackoffMs opts) else intervalMs opts)"
  by (cases r) (simp_all add: tick_def tickFinish_def failed_def Let_def)

lemma tick_idle: "\<not> running s \<Longrightarrow> \<not> running (tick opts r s)"
  by (simp add: tick_def tickFinish_def Let_def)

lemma tick_timer: "\<not> running s \<Longrightarrow> timerId (tick opts r s) = Some (nextDelay (tick opts r s))"
  by (simp add: tick_def tickFinish_def Let_def)

text \<open>
  C5. A tick that starts while none is running and whose render succeeds resets the next
  delay to the base interval; one whose render fails (a thrown error, or a result with the
  soft-failure flag \<open>hadError\<close>) doubles the current next delay, capped at
  \<open>maxBackoffMs\<close>; either way a timer is armed with the new delay. With a base interval
  of 60000 and a cap of 300000, starting from a delay equal to the base interval, three
  failures in a row give the delays 120000, 240000 and 300000.
\<close>

theorem tick_backoff:
  assumes idle: "\<not> running s"
  shows "(\<not> failed r \<longrightarrow> nextDelay (tick opts r s) = intervalMs opts)
       \<and> (failed r \<longrightarrow> nextDelay (tick opts r s) = min (nextDelay s * 2) (maxBackoffMs opts))
       \<and> failed (Inl e) \<and> failed (Inr res) = hadError res
       \<and> timerId (tick opts r s) = Some (nextDelay (tick opts r s))
       \<and> (intervalMs opts = 60000 \<and> maxBackoffMs opts = 300000 \<and> nextDelay s = intervalMs opts
            \<and> failed r1 \<and> failed r2 \<and> failed r3 \<longrightarrow>
          nextDelay (tick opts r1 s) = 120000
          \<and> nextDelay (tick opts r2 (tick opts r1 s)) = 240000
          \<and> nextDelay (tick opts r3 (tick opts r2 (tick opts r1 s))) = 300000)"
proof -
  have a: "\<not> failed r \<longrightarrow> nextDelay (tick opts r s) = intervalMs opts"
    using idle by (simp add: tick_nextDelay)
  have b: "failed r \<longrightarrow> nextDelay (tick opts r s) = min (nextDelay s * 2) (maxBackoffMs opts)"
    using idle by (simp add: tick_nextDelay)
  have c: "failed (Inl e) \<and> failed (Inr res) = hadError res"
    by (simp add: failed_def)
  have d: "timerId (tick opts r s) = Some (nextDelay (tick opts r s))"
    using idle by (rule tick_timer)
  have e: "nextDelay (tick opts r1 s) = 120000
          \<and> nextDelay (tick opts r2 (tick opts r1 s)) = 240000
          \<and> nextDelay (tick opts r3 (tick opts r2 (tick opts r1 s))) = 300000"
    if h: "intervalMs opts = 60000" "maxBackoffMs opts = 300000" "nextDelay s = intervalMs opts"
       "failed r1" "failed r2" "failed r3"
  proof -
    have i1: "\<not> running (tick opts r1 s)" using idle by (rule tick_idle)
    have i2: "\<not> running (tick opts r2 (tick opts r1 s))" using i1 by (rule tick_idle)
    have d1: "nextDelay (tick opts r1 s) = 120000"
      using h by (simp add: tick_nextDelay [OF idle])
    have d2: "nextDelay (tick opts r2 (tick opts r1 s)) = 240000"
      using h d1 by (simp add: tick_nextDelay [OF i1])
    have d3: "nextDelay (tick opts r3 (tick opts r2 (tick opts r1 s))) = 300000"
      using h d2 by (simp add: tick_nextDelay [OF i2])
    show ?thesis using d1 d2 d3 by simp
  qed
  show ?thesis using a b c d e by blast
qed

theorem tick_backoff_witness:
  "\<not> running (startAlertsAutoRefresh \<lparr>optIntervalMs = Some 60000, optMaxBackoffMs = Some 300000\<rparr>)
   \<and> nextDelay (tick \<lparr>optIntervalMs = Some 60000, optMaxBackoffMs = Some 300000\<rparr> (Inl FetchError)
       (startAlertsAutoRefresh \<lparr>optIntervalMs = Some 60000, optMaxBackoffMs = Some 300000\<rparr>)) = 120000
   \<and> nextDelay (tick \<lparr>optIntervalMs = Some 60000, optMaxBackoffMs = Some 300000\<rparr>
        (Inr \<lparr>activeCount = 0, hadError = True\<rparr>)
       (tick \<lparr>optIntervalMs = Some 60000, optMaxBackoffMs = Some 300000\<rparr> (Inl FetchError)
       (startAlertsAutoRefresh \<lparr>optIntervalMs = Some 60000, optMaxBackoffMs = Some 300000\<rparr>))) = 240000
   \<and> nextDelay (tick \<lparr>optIntervalMs = Some 60000, optMaxBackoffMs = Some 300000\<rparr> (Inl FetchError)
       (tick \<lparr>optIntervalMs = Some 60000, optMaxBackoffMs = Some 300000\<rparr>
        (Inr \<lparr>activeCount = 0, hadError = True\<rparr>)
       (tick \<lparr>optIntervalMs = Some 60000, optMaxBackoffMs = Some 300000\<rparr> (Inl FetchError)
       (startAlertsAutoRefresh \<lparr>optIntervalMs = Some 60000, optMaxBackoffMs = Some 300000\<rparr>)))) = 300000"
proof -
  let ?o = "\<lparr>optIntervalMs = Some 60000, optMaxBackoffMs = Some 300000\<rparr>"
  let ?s = "startAlertsAutoRefresh ?o"
  have h: "\<not> running ?s" by (simp add: startAlertsAutoRefresh_def)
  have c: "intervalMs ?o = 60000 \<and> maxBackoffMs ?o = 300000 \<and> nextDelay ?s = intervalMs ?o
    \<and> failed (Inl FetchError) \<and> failed (Inr \<lparr>activeCount = 0, hadError = True\<rparr>)
    \<and> failed (Inl FetchError)"
    by (simp add: intervalMs_def maxBackoffMs_def startAlertsAutoRefresh_def failed_def)
  have t: "nextDelay (tick ?o (Inl FetchError) ?s) = 120000
     \<and> nextDelay (tick ?o (Inr \<lparr>activeCount = 0, hadError = True\<rparr>) (tick ?o (Inl FetchError) ?s)) = 240000
     \<and> nextDelay (tick ?o (Inl FetchError) (tick ?o (Inr \<lparr>activeCount = 0, hadError = True\<rparr>) (tick ?o (Inl FetchError) ?s))) = 300000"
    using c tick_backoff [OF h, of "Inl FetchError" ?o FetchError "\<lparr>activeCount = 0, hadError = True\<rparr>"
         "Inl FetchError" "Inr \<lparr>activeCount = 0, hadError = True\<rparr>" "Inl FetchError"]
    by blast
  show ?thesis using h t by blast
qed

lemma step_delay_bounds:
  assumes "0 \<le> intervalMs opts" "intervalMs opts \<le> maxBackoffMs opts"
    and "intervalMs opts \<le> nextDelay s" "nextDelay s \<le> maxBackoffMs opts"
  shows "intervalMs opts \<le> nextDelay (step opts s ev) \<and> nextDelay (step opts s ev) \<le> maxBackoffMs opts"
proof (cases ev)
  case TickBegins
  then show ?thesis using assms by (simp add: tickBegin_def)
next
  case (TickSettles r)
  then show ?thesis using assms
    by (cases r) (simp_all add: tickFinish_def Let_def)
next
  case PageHidden
  then show ?thesis using assms by simp
next
  case PageVisible
  then show ?thesis using assms by simp
next
  case Cancelled
  then show ?thesis using assms by simp
qed

lemma foldl_delay_bounds:
  assumes "0 \<le> intervalMs opts" "intervalMs opts \<le> maxBackoffMs opts"
    and "intervalMs opts \<le> nextDelay s" "nextDelay s \<le> maxBackoffMs opts"
  shows "intervalMs opts \<le> nextDelay (foldl (step opts) s evs)
       \<and> nextDelay (foldl (step opts) s evs) \<le> maxBackoffMs opts"
  using assms(3,4)
proof (induction evs arbitrary: s)
  case Nil
  then show ?case by simp
next
  case (Cons ev evs)
  have "intervalMs opts \<le> nextDelay (step opts s ev) \<and> nextDelay (step opts s ev) \<le> maxBackoffMs opts"
    using step_delay_bounds [OF assms(1,2) Cons.prems] .
  then show ?case using Cons.IH [of "step opts s ev"] by simp
qed

text \<open>
  C10. When the base interval is not negative and not above the cap, the next delay stays
  between the base interval and the cap, both included, after every sequence of scheduler
  events (ticks beginning, renders settling either way, the page being hidden or shown,
  cancellation); it starts at the base interval.
\<close>

theorem nextDelay_bounds:
  assumes "0 \<le> intervalMs opts" "intervalMs opts \<le> maxBackoffMs opts"
  shows "intervalMs opts \<le> nextDelay (runEvents opts evs)
       \<and> nextDelay (runEvents opts evs) \<le> maxBackoffMs opts
       \<and> nextDelay (startAlertsAutoRefresh opts) = intervalMs opts"
proof -
  have "nextDelay (startAlertsAutoRefresh opts) = intervalMs opts"
    by (simp add: startAlertsAutoRefresh_def)
  then show ?thesis
    using foldl_delay_bounds [OF assms, of "startAlertsAutoRefresh opts" evs] assms(2)
    by (simp add: runEvents_def)
qed

theorem nextDelay_bounds_witness:
  "0 \<le> intervalMs \<lparr>optIntervalMs = Some 60000, optMaxBackoffMs = Some 300000\<rparr>
   \<and> intervalMs \<lparr>optIntervalMs = Some 60000, optMaxBackoffMs = Some 300000\<rparr>
       \<le> maxBackoffMs \<lparr>optIntervalMs = Some 60000, optMaxBackoffMs = Some 300000\<rparr>
   \<and> 60000 \<le> nextDelay (runEvents \<lparr>optIntervalMs = Some 60000, optMaxBackoffMs = Some 300000\<rparr>
        [TickBegins, PageHidden, TickSettles (Inl FetchError), TickBegins, TickBegins,
         TickSettles (Inr \<lparr>activeCount = 0, hadError = True\<rparr>), PageVisible])
   \<and> nextDelay (runEvents \<lparr>optIntervalMs = Some 60000, optMaxBackoffMs = Some 300000\<rparr>
        [TickBegins, PageHidden, TickSettles (Inl FetchError), TickBegins, TickBegins,
         TickSettles (Inr \<lparr>activeCount = 0, hadError = True\<rparr>), PageVisible]) \<le> 300000"
proof -
  let ?o = "\<lparr>optIntervalMs = Some 60000, optMaxBackoffMs = Some 300000\<rparr>"
  have a: "0 \<le> intervalMs ?o" and b: "intervalMs ?o \<le> maxBackoffMs ?o"
    by (simp_all add: intervalMs_def maxBackoffMs_def)
  have c: "intervalMs ?o = 60000" "maxBackoffMs ?o = 300000"
    by (simp_all add: intervalMs_def maxBackoffMs_def)
  show ?thesis
    using a b nextDelay_bounds [OF a b, of "[TickBegins, PageHidden, TickSettles (Inl FetchError), TickBegins, TickBegins,
         TickSettles (Inr \<lparr>activeCount = 0, hadError = True\<rparr>), PageVisible]"]
    unfolding c by blast
qed

text \<open>
  The base interval must not be negative: with a base interval of -10 and a cap of -5 the
  cap is not below the interval, yet one failed tick takes the delay to -20, below the
  interval.
\<close>

theorem nextDelay_bounds_counterexample:
  "intervalMs \<lparr>optIntervalMs = Some (- 10), optMaxBackoffMs = Some (- 5)\<rparr>
     \<le> maxBackoffMs \<lparr>optIntervalMs = Some (- 10), optMaxBackoffMs = Some (- 5)\<rparr>
   \<and> nextDelay (runEvents \<lparr>optIntervalMs = Some (- 10), optMaxBackoffMs = Some (- 5)\<rparr>
        [TickBegins, TickSettles (Inl FetchError)]) = - 20
   \<and> nextDelay (runEvents \<lparr>optIntervalMs = Some (- 10), optMaxBackoffMs = Some (- 5)\<rparr>
        [TickBegins, TickSettles (Inl FetchError)])
     < intervalMs \<lparr>optIntervalMs = Some (- 10), optMaxBackoffMs = Some (- 5)\<rparr>"
  by (simp add: runEvents_def startAlertsAutoRefresh_def intervalMs_def maxBackoffMs_def
      tickBegin_def tickFinish_def Let_def)

subsection \<open>The identity key of an alert\<close>

text \<open>
  C8, as it holds. The identity key of an alert feature is its top-level id when that is a
  non-empty string; otherwise \<open>properties.id\<close> when that is one; otherwise
  \<open>properties['@id']\<close> when that is one; otherwise the event name (\<open>Unknown\<close> when
  there is none), a bar, and the first non-empty one of the \<open>sent\<close>, \<open>effective\<close>
  and \<open>onset\<close> timestamps, in this order of preference (nothing when there is none).
\<close>

theorem alertKey_cases:
  "(truthyStr (fid f) = Some k \<longrightarrow> alertKey f = k)
   \<and> (truthyStr (fid f) = None \<and> truthyStr (pid (propsOf f)) = Some k \<longrightarrow> alertKey f = k)
   \<and> (truthyStr (fid f) = None \<and> truthyStr (pid (propsOf f)) = None
        \<and> truthyStr (atId (propsOf f)) = Some k \<longrightarrow> alertKey f = k)
   \<and> (truthyStr (fid f) = None \<and> truthyStr (pid (propsOf f)) = None
        \<and> truthyStr (atId (propsOf f)) = None \<longrightarrow>
        (truthyStr (sent (propsOf f)) = Some t \<longrightarrow>
           alertKey f = orStr (event (propsOf f)) ''Unknown'' @ ''|'' @ t)
        \<and> (truthyStr (sent (propsOf f)) = None \<and> truthyStr (effective (propsOf f)) = Some t \<longrightarrow>
           alertKey f = orStr (event (propsOf f)) ''Unknown'' @ ''|'' @ t)
        \<and> (truthyStr (sent (propsOf f)) = None \<and> truthyStr (effective (propsOf f)) = None
             \<and> truthyStr (onset (propsOf f)) = Some t \<longrightarrow>
           alertKey f = orStr (event (propsOf f)) ''Unknown'' @ ''|'' @ t)
        \<and> (truthyStr (sent (propsOf f)) = None \<and> truthyStr (effective (propsOf f)) = None
             \<and> truthyStr (onset (propsOf f)) = None \<longrightarrow>
           alertKey f = orStr (event (propsOf f)) ''Unknown'' @ ''|''))
   \<and> orStr None ''Unknown'' = ''Unknown'' \<and> orStr (Some '''') ''Unknown'' = ''Unknown''
   \<and> orStr (Some (c # cs)) ''Unknown'' = c # cs"
  by (simp add: alertKey_def orStr_def Let_def)

theorem alertKey_cases_witness:
  "truthyStr (fid \<lparr>fid = None, properties = Some (emptyProps
       \<lparr>effective := Some ''2024-05-02T00:00:00Z'', onset := Some ''2024-05-01T00:00:00Z'',
        event := Some ''Flood Warning''\<rparr>)\<rparr>) = None
   \<and> alertKey \<lparr>fid = None, properties = Some (emptyProps
       \<lparr>effective := Some ''2024-05-02T00:00:00Z'', onset := Some ''2024-05-01T00:00:00Z'',
        event := Some ''Flood Warning''\<rparr>)\<rparr> = ''Flood Warning|2024-05-02T00:00:00Z''
   \<and> alertKey \<lparr>fid = Some ''https://api.weather.gov/alerts/urn:oid:1'', properties = None\<rparr>
       = ''https://api.weather.gov/alerts/urn:oid:1''"
proof -
  let ?f = "\<lparr>fid = None, properties = Some (emptyProps
       \<lparr>effective := Some ''2024-05-02T00:00:00Z'', onset := Some ''2024-05-01T00:00:00Z'',
        event := Some ''Flood Warning''\<rparr>)\<rparr>"
  let ?g = "\<lparr>fid = Some ''https://api.weather.gov/alerts/urn:oid:1'', properties = None\<rparr>"
  have h: "truthyStr (fid ?f) = None \<and> truthyStr (pid (propsOf ?f)) = None
        \<and> truthyStr (atId (propsOf ?f)) = None \<and> truthyStr (sent (propsOf ?f)) = None
        \<and> truthyStr (effective (propsOf ?f)) = Some ''2024-05-02T00:00:00Z''
        \<and> orStr (event (propsOf ?f)) ''Unknown'' = ''Flood Warning''"
    by (simp add: propsOf_def emptyProps_def orStr_def)
  have g: "truthyStr (fid ?g) = Some ''https://api.weather.gov/alerts/urn:oid:1''"
    by simp
  have 1: "alertKey ?f = ''Flood Warning|2024-05-02T00:00:00Z''"
    using h alertKey_cases [of ?f k "''2024-05-02T00:00:00Z''" c cs] by simp
  have 2: "alertKey ?g = ''https://api.weather.gov/alerts/urn:oid:1''"
    using g alertKey_cases [of ?g "''https://api.weather.gov/alerts/urn:oid:1''" t c cs] by blast
  show ?thesis using h 1 2 by blast
qed

text \<open>
  With no top-level id, the wording "the feature id if present, else a composite of the
  event name and a timestamp" asks for a composite; the key is \<open>properties.id\<close>.
\<close>

theorem alertKey_counterexample:
  "fid \<lparr>fid = None, properties = Some (emptyProps
       \<lparr>pid := Some ''urn:oid:2.49.0.1.840.0.1'', sent := Some ''2024-05-01T10:00:00-05:00'',
        event := Some ''Flood Warning''\<rparr>)\<rparr> = None
   \<and> alertKey \<lparr>fid = None, properties = Some (emptyProps
       \<lparr>pid := Some ''urn:oid:2.49.0.1.840.0.1'', sent := Some ''2024-05-01T10:00:00-05:00'',
        event := Some ''Flood Warning''\<rparr>)\<rparr> = ''urn:oid:2.49.0.1.840.0.1''
   \<and> specKeyCandidates \<lparr>fid = None, properties = Some (emptyProps
       \<lparr>pid := Some ''urn:oid:2.49.0.1.840.0.1'', sent := Some ''2024-05-01T10:00:00-05:00'',
        event := Some ''Flood Warning''\<rparr>)\<rparr> = [''Flood Warning|2024-05-01T10:00:00-05:00'']
   \<and> alertKey \<lparr>fid = None, properties = Some (emptyProps
       \<lparr>pid := Some ''urn:oid:2.49.0.1.840.0.1'', sent := Some ''2024-05-01T10:00:00-05:00'',
        event := Some ''Flood Warning''\<rparr>)\<rparr>
     \<notin> set (specKeyCandidates \<lparr>fid = None, properties = Some (emptyProps
       \<lparr>pid := Some ''urn:oid:2.49.0.1.840.0.1'', sent := Some ''2024-05-01T10:00:00-05:00'',
        event := Some ''Flood Warning''\<rparr>)\<rparr>)"
  by (simp add: alertKey_def specKeyCandidates_def propsOf_def emptyProps_def orStr_def
      List.map_filter_simps Let_def)

subsection \<open>The endpoint cache\<close>

lemma resolve_hit:
  "endpointCache w (keyFromLatLon lat lon) = Some v \<Longrightarrow>
   resolveEndpointsForPoint net w lat lon = (Inr v, w)"
  by (simp add: resolveEndpointsForPoint_def Let_def)

lemma resolve_cache_persist:
  assumes "endpointCache w k = Some v"
  shows "endpointCache (snd (resolveEndpointsForPoint net w lat lon)) k = Some v"
proof (cases "endpointCache w (keyFromLatLon lat lon)")
  case None
  then have "keyFromLatLon lat lon \<noteq> k" using assms by auto
  then show ?thesis using assms None
    by (simp add: resolveEndpointsForPoint_def Let_def split: sum.splits option.splits)
next
  case (Some u)
  then show ?thesis using assms by (simp add: resolve_hit)
qed

lemma resolveMany_cache_persist:
  "endpointCache w k = Some v \<Longrightarrow> endpointCache (resolveMany w calls) k = Some v"
proof (induction calls arbitrary: w)
  case Nil
  then show ?case by simp
next
  case (Cons c cs)
  obtain net lat lon where c: "c = (net, lat, lon)" by (cases c) auto
  show ?case using Cons.IH [OF resolve_cache_persist [OF Cons.prems]] by (simp add: c)
qed

lemma resolve_success_cached:
  assumes "resolveEndpointsForPoint net w lat lon = (Inr v, w1)"
  shows "endpointCache w1 (keyFromLatLon lat lon) = Some v"
proof (cases "endpointCache w (keyFromLatLon lat lon)")
  case None
  then show ?thesis using assms
    by (auto simp: resolveEndpointsForPoint_def Let_def split: sum.splits option.splits)
next
  case (Some u)
  then show ?thesis using assms by (simp add: resolve_hit)
qed

text \<open>
  C6. Once the resolver has returned an endpoint set for a coordinate pair, a later call
  with the same pair returns the same endpoint set and leaves the module state as it is,
  so no further \<open>/points\<close> request is made: whatever the network would answer now, and
  however many other resolutions happened in between. The successful call has left the
  set in the cache under the key made of the two coordinates.
\<close>

theorem resolve_twice:
  assumes "resolveEndpointsForPoint net w lat lon = (Inr v, w1)"
  shows "resolveEndpointsForPoint net2 w1 lat lon = (Inr v, w1)
       \<and> resolveEndpointsForPoint net3 (resolveMany w1 calls) lat lon
           = (Inr v, resolveMany w1 calls)
       \<and> endpointCache w1 (keyFromLatLon lat lon) = Some v"
proof -
  have c: "endpointCache w1 (keyFromLatLon lat lon) = Some v"
    using assms by (rule resolve_success_cached)
  have m: "endpointCache (resolveMany w1 calls) (keyFromLatLon lat lon) = Some v"
    using c by (rule resolveMany_cache_persist)
  show ?thesis using c m by (simp add: resolve_hit)
qed

subsection \<open>Merging, filtering and deduplicating the alerts\<close>

lemma features_runRequest: "features (runRequest net r) = queryFeatures net (query r)"
  by (simp add: runRequest_def queryFeatures_def split: sum.splits)

lemma rlabel_runRequest: "rlabel (runRequest net r) = label r"
  by (simp add: runRequest_def split: sum.splits)

lemma alertResults_eq:
  "alertResults net zc lat lon =
     map (\<lambda>z. runRequest net \<lparr>label = ''zone:'' @ z, query = ByZone z\<rparr>) zc
     @ [runRequest net \<lparr>label = ''point:'' @ lat @ '','' @ lon, query = ByPoint lat lon\<rparr>]"
  by (simp add: alertResults_def Let_def)

lemma find_behind:
  "(\<And>r. r \<in> set rs \<Longrightarrow> \<not> P r) \<Longrightarrow> P p \<Longrightarrow> find P (rs @ [p]) = Some p"
  by (induction rs) simp_all

lemma pointFeatures_alertResults:
  "pointFeatures (alertResults net zc lat lon) = queryFeatures net (ByPoint lat lon)"
proof -
  let ?rs = "map (\<lambda>z. runRequest net \<lparr>label = ''zone:'' @ z, query = ByZone z\<rparr>) zc"
  let ?p = "runRequest net \<lparr>label = ''point:'' @ lat @ '','' @ lon, query = ByPoint lat lon\<rparr>"
  have z: "\<And>r. r \<in> set ?rs \<Longrightarrow> \<not> prefix ''point:'' (rlabel r)"
    by (auto simp: rlabel_runRequest)
  have p: "prefix ''point:'' (rlabel ?p)"
    by (simp add: rlabel_runRequest)
  have "find (\<lambda>r. prefix ''point:'' (rlabel r)) (?rs @ [?p]) = Some ?p"
    using z p by (rule find_behind)
  then show ?thesis
    by (simp only: pointFeatures_def alertResults_eq option.case features_runRequest
        request.simps)
qed

lemma zone_results:
  "concat (map features (filter (\<lambda>r. prefix ''zone:'' (rlabel r))
     (map (\<lambda>z. runRequest net \<lparr>label = ''zone:'' @ z, query = ByZone z\<rparr>) zs)))
   = concat (map (\<lambda>z. queryFeatures net (ByZone z)) zs)"
  by (induction zs) (simp_all add: rlabel_runRequest features_runRequest)

lemma zoneFeaturesAll_alertResults:
  "zoneFeaturesAll (alertResults net zc lat lon)
   = concat (map (\<lambda>z. queryFeatures net (ByZone z)) zc)"
proof -
  have "\<not> prefix ''zone:'' (rlabel (runRequest net
          \<lparr>label = ''point:'' @ lat @ '','' @ lon, query = ByPoint lat lon\<rparr>))"
    by (simp add: rlabel_runRequest)
  then show ?thesis
    using zone_results [of net zc]
    by (simp add: zoneFeaturesAll_def alertResults_eq)
qed

lemma allAlerts_eq:
  "allAlerts net zc lat lon =
     queryFeatures net (ByPoint lat lon)
     @ zoneFiltered zc (concat (map (\<lambda>z. queryFeatures net (ByZone z)) zc))"
  by (simp add: allAlerts_def Let_def pointFeatures_alertResults zoneFeaturesAll_alertResults)

lemma dedupLoop_acc: "dedupLoop seen unique fs = unique @ dedupLoop seen [] fs"
proof (induction fs arbitrary: seen unique)
  case Nil
  then show ?case by simp
next
  case (Cons f fs)
  show ?case
  proof (cases "alertKey f \<in> seen")
    case True
    then show ?thesis using Cons.IH [of seen unique] by simp
  next
    case False
    have "dedupLoop (insert (alertKey f) seen) (unique @ [f]) fs
          = (unique @ [f]) @ dedupLoop (insert (alertKey f) seen) [] fs"
      by (rule Cons.IH)
    moreover have "dedupLoop (insert (alertKey f) seen) [f] fs
          = [f] @ dedupLoop (insert (alertKey f) seen) [] fs"
      by (rule Cons.IH)
    ultimately show ?thesis using False by (simp add: Let_def)
  qed
qed

lemma dedupLoop_Cons:
  "dedupLoop seen [] (f # fs) =
     (if alertKey f \<in> seen then dedupLoop seen [] fs
      else f # dedupLoop (insert (alertKey f) seen) [] fs)"
  using dedupLoop_acc [of "insert (alertKey f) seen" "[f]" fs] by (simp add: Let_def)

lemma filter_dedupLoop:
  "filter (\<lambda>g. alertKey g = k) (dedupLoop seen [] fs) =
     (if k \<in> seen then [] else take 1 (filter (\<lambda>g. alertKey g = k) fs))"
proof (induction fs arbitrary: seen)
  case Nil
  then show ?case by simp
next
  case (Cons f fs)
  show ?case
  proof (cases "alertKey f \<in> seen")
    case True
    then show ?thesis using Cons.IH [of seen] by (auto simp: dedupLoop_Cons simp del: dedupLoop.simps)
  next
    case False
    then show ?thesis using Cons.IH [of "insert (alertKey f) seen"]
      by (auto simp: dedupLoop_Cons simp del: dedupLoop.simps)
  qed
qed

lemma dedupLoop_keys:
  "distinct (map alertKey (dedupLoop seen [] fs))
   \<and> alertKey ` set (dedupLoop seen [] fs) \<inter> seen = {}
   \<and> set (dedupLoop seen [] fs) \<subseteq> set fs"
proof (induction fs arbitrary: seen)
  case Nil
  then show ?case by simp
next
  case (Cons f fs)
  show ?case
  proof (cases "alertKey f \<in> seen")
    case True
    then show ?thesis using Cons.IH [of seen] by (auto simp: dedupLoop_Cons simp del: dedupLoop.simps)
  next
    case False
    then show ?thesis using Cons.IH [of "insert (alertKey f) seen"]
      by (auto simp: dedupLoop_Cons simp del: dedupLoop.simps)
  qed
qed

lemma fetch_result:
  assumes "getPoints net lat lon = Inr pts"
  shows "fetchAlertsCombined net up lat lon
         = Inr (dedupLoop {} [] (allAlerts net (zoneCodesFromPoints up pts) lat lon))"
  using assms by (simp add: fetchAlertsCombined_def Let_def)


lemma zoneFiltered_set:
  "f \<in> set (zoneFiltered zc fs) \<longleftrightarrow>
   f \<in> set fs \<and> (\<exists>z\<in>set (zonesFromAlert f). z \<in> set zc)"
  by (auto simp: zoneFiltered_def list_ex_iff)

text \<open>
  C4. A feature of the aggregator's result that the point query did not report was
  reported by a zone query and has a UGC code among the point's zone codes. The point
  query's features pass unfiltered: each is represented in the result by a point-query
  feature with its key. In particular, with the zone codes TX209 and TX453, a zone-query
  feature whose UGC list is just ZZ999 is not in the result.
\<close>

theorem zone_filter:
  assumes "getPoints net lat lon = Inr pts"
    and "fetchAlertsCombined net up lat lon = Inr unique"
  shows "(\<forall>f\<in>set unique.
            f \<in> set (queryFeatures net (ByPoint lat lon))
            \<or> ((\<exists>z\<in>set (zoneCodesFromPoints up pts). f \<in> set (queryFeatures net (ByZone z)))
               \<and> (\<exists>z\<in>set (zonesFromAlert f). z \<in> set (zoneCodesFromPoints up pts))))
       \<and> (\<forall>f\<in>set (queryFeatures net (ByPoint lat lon)).
            \<exists>g\<in>set unique. alertKey g = alertKey f
                           \<and> g \<in> set (queryFeatures net (ByPoint lat lon)))
       \<and> (zoneCodesFromPoints up pts = [''TX209'', ''TX453'']
            \<and> zonesFromAlert h = [''ZZ999'']
            \<and> h \<notin> set (queryFeatures net (ByPoint lat lon))
          \<longrightarrow> h \<notin> set unique)"
proof -
  let ?zc = "zoneCodesFromPoints up pts"
  let ?P = "queryFeatures net (ByPoint lat lon)"
  let ?Z = "zoneFiltered ?zc (concat (map (\<lambda>z. queryFeatures net (ByZone z)) ?zc))"
  have u: "unique = dedupLoop {} [] (?P @ ?Z)"
    using assms fetch_result [OF assms(1), of up] by (simp add: allAlerts_eq)
  have sub: "set unique \<subseteq> set ?P \<union> set ?Z"
    unfolding u using dedupLoop_keys [of "{}" "?P @ ?Z"] by auto
  have a: "\<forall>f\<in>set unique. f \<in> set ?P
            \<or> ((\<exists>z\<in>set ?zc. f \<in> set (queryFeatures net (ByZone z)))
               \<and> (\<exists>z\<in>set (zonesFromAlert f). z \<in> set ?zc))"
  proof
    fix f assume "f \<in> set unique"
    then have "f \<in> set ?P \<or> f \<in> set ?Z" using sub by auto
    then show "f \<in> set ?P
            \<or> ((\<exists>z\<in>set ?zc. f \<in> set (queryFeatures net (ByZone z)))
               \<and> (\<exists>z\<in>set (zonesFromAlert f). z \<in> set ?zc))"
      by (auto simp: zoneFiltered_set)
  qed
  have b: "\<forall>f\<in>set ?P. \<exists>g\<in>set unique. alertKey g = alertKey f \<and> g \<in> set ?P"
  proof
    fix f assume f: "f \<in> set ?P"
    let ?F = "filter (\<lambda>g. alertKey g = alertKey f) ?P"
    have ne: "?F \<noteq> []" using f by (auto simp: filter_empty_conv)
    then obtain g gs where F: "?F = g # gs" by (cases ?F) auto
    have "g \<in> set ?F" by (simp add: F)
    then have g: "g \<in> set ?P" "alertKey g = alertKey f" by auto
    have "filter (\<lambda>g. alertKey g = alertKey f) unique = [g]"
      unfolding u using filter_dedupLoop [of "alertKey f" "{}" "?P @ ?Z"] F by simp
    then have "g \<in> set (filter (\<lambda>g. alertKey g = alertKey f) unique)" by simp
    then have "g \<in> set unique" by simp
    then show "\<exists>g\<in>set unique. alertKey g = alertKey f \<and> g \<in> set ?P" using g by blast
  qed
  have c: "h \<notin> set unique"
    if "?zc = [''TX209'', ''TX453'']" "zonesFromAlert h = [''ZZ999'']" "h \<notin> set ?P"
  proof
    assume "h \<in> set unique"
    then have "\<exists>z\<in>set (zonesFromAlert h). z \<in> set ?zc" using a that(3) by blast
    then show False using that(1,2) by simp
  qed
  show ?thesis using a b c by blast
qed

text \<open>
  C7. When the point lookup succeeds, the point query contributes no feature and no zone
  query contributes a feature that passes the zone filter (a failed query contributes
  none), the aggregator returns the empty list, not an error, and the render reports zero
  alerts without the error flag.
\<close>

theorem no_alerts_is_empty:
  assumes "getPoints net lat lon = Inr pts"
    and "queryFeatures net (ByPoint lat lon) = []"
    and "\<forall>z\<in>set (zoneCodesFromPoints up pts).
           zoneFiltered (zoneCodesFromPoints up pts) (queryFeatures net (ByZone z)) = []"
  shows "fetchAlertsCombined net up lat lon = Inr []
       \<and> renderAlertsForPrimary net up parseDate now lat lon
           = ([], \<lparr>activeCount = 0, hadError = False\<rparr>)"
proof -
  let ?zc = "zoneCodesFromPoints up pts"
  have "zoneFiltered ?zc (concat (map (\<lambda>z. queryFeatures net (ByZone z)) ?zc)) = []"
    using assms(3) by (auto simp: zoneFiltered_def filter_empty_conv)
  then have "allAlerts net ?zc lat lon = []"
    using assms(2) by (simp add: allAlerts_eq)
  then have "fetchAlertsCombined net up lat lon = Inr []"
    using fetch_result [OF assms(1), of up] by simp
  then show ?thesis by (simp add: renderAlertsForPrimary_def)
qed

subsection \<open>Sorting\<close>

lemma takeRun_append: "takeRun cmp d p xs = (run, rest) \<Longrightarrow> run @ rest = xs"
  by (induction xs arbitrary: p run rest) (auto simp: Let_def split: if_splits prod.splits)

lemma mset_countAndMakeRun:
  "countAndMakeRun cmp xs = (run, rest) \<Longrightarrow> mset run + mset rest = mset xs"
proof (cases xs)
  case Nil
  then show "countAndMakeRun cmp xs = (run, rest) \<Longrightarrow> ?thesis" by (simp add: countAndMakeRun_def)
next
  case (Cons x xs')
  assume a: "countAndMakeRun cmp xs = (run, rest)"
  show ?thesis
  proof (cases xs')
    case Nil
    then show ?thesis using a Cons by (auto simp: countAndMakeRun_def)
  next
    case (Cons y ys)
    obtain r s where t: "takeRun cmp (sortCompare cmp y x < 0) y ys = (r, s)"
      by (cases "takeRun cmp (sortCompare cmp y x < 0) y ys") auto
    have "r @ s = ys" using t by (rule takeRun_append)
    then have "mset r + mset s = mset ys" by (metis mset_append)
    then show ?thesis using a \<open>xs = x # xs'\<close> Cons t
      by (auto simp: countAndMakeRun_def Let_def split: if_splits)
  qed
qed

lemma mset_binaryInsert: "mset (binaryInsert cmp pivot srt) = add_mset pivot (mset srt)"
proof (induction cmp pivot srt rule: binaryInsert.induct)
  case (1 cmp pivot srt)
  let ?m = "length srt div 2"
  show ?case
  proof (cases "srt = []")
    case True
    then show ?thesis by (simp add: binaryInsert.simps)
  next
    case ne: False
    show ?thesis
    proof (cases "sortCompare cmp pivot (srt ! ?m) < 0")
      case True
      have "mset (binaryInsert cmp pivot srt)
            = mset (binaryInsert cmp pivot (take ?m srt)) + mset (drop ?m srt)"
        using ne True by (subst binaryInsert.simps) simp
      also have "\<dots> = add_mset pivot (mset (take ?m srt) + mset (drop ?m srt))"
        using "1.IH"(1) [OF ne True] by simp
      also have "mset (take ?m srt) + mset (drop ?m srt) = mset srt"
        by (metis append_take_drop_id mset_append)
      finally show ?thesis .
    next
      case False
      have "mset (binaryInsert cmp pivot srt)
            = mset (take (Suc ?m) srt) + mset (binaryInsert cmp pivot (drop (Suc ?m) srt))"
        using ne False by (subst binaryInsert.simps) simp
      also have "\<dots> = add_mset pivot (mset (take (Suc ?m) srt) + mset (drop (Suc ?m) srt))"
        using "1.IH"(2) [OF ne False] by simp
      also have "mset (take (Suc ?m) srt) + mset (drop (Suc ?m) srt) = mset srt"
        by (metis append_take_drop_id mset_append)
      finally show ?thesis .
    qed
  qed
qed

lemma mset_foldl_binaryInsert:
  "mset (foldl (\<lambda>srt pivot. binaryInsert cmp pivot srt) acc xs) = mset acc + mset xs"
  by (induction xs arbitrary: acc) (simp_all add: mset_binaryInsert)

lemma mset_insertSorted: "mset (insertSorted cmp x ys) = add_mset x (mset ys)"
  by (induction ys) simp_all

lemma mset_foldl_insertSorted:
  "mset (foldl (\<lambda>acc x. insertSorted cmp x acc) acc xs) = mset acc + mset xs"
  by (induction xs arbitrary: acc) (simp_all add: mset_insertSorted)

lemma mset_arraySort: "mset (arraySort cmp xs) = mset xs"
proof (cases "length xs < 64")
  case True
  obtain run rest where c: "countAndMakeRun cmp xs = (run, rest)"
    by (cases "countAndMakeRun cmp xs") auto
  show ?thesis using True c mset_countAndMakeRun [OF c]
    by (simp add: arraySort_def mset_foldl_binaryInsert)
next
  case False
  then show ?thesis by (simp add: arraySort_def mset_foldl_insertSorted)
qed

lemma takeRun_ascending:
  assumes trans: "\<forall>a\<in>A. \<forall>b\<in>A. \<forall>c\<in>A. le a b \<longrightarrow> le b c \<longrightarrow> le a c"
    and ge: "\<forall>a\<in>A. \<forall>b\<in>A. \<not> sortCompare cmp a b < 0 \<longrightarrow> le b a"
  shows "takeRun cmp False p xs = (run, rest) \<Longrightarrow> p \<in> A \<Longrightarrow> set xs \<subseteq> A
         \<Longrightarrow> sorted_wrt le (p # run)"
proof (induction xs arbitrary: p run rest)
  case Nil
  then show ?case by simp
next
  case (Cons x xs)
  have xA: "x \<in> A" and xsA: "set xs \<subseteq> A" using Cons.prems(3) by auto
  show ?case
  proof (cases "sortCompare cmp x p < 0")
    case True
    then show ?thesis using Cons.prems(1) by (simp add: Let_def)
  next
    case False
    obtain r s where t: "takeRun cmp False x xs = (r, s)"
      by (cases "takeRun cmp False x xs") auto
    have run: "run = x # r" using Cons.prems(1) False t by (simp add: Let_def)
    have "r @ s = xs" using t by (rule takeRun_append)
    then have rA: "set r \<subseteq> A" using xsA by auto
    have srt: "sorted_wrt le (x # r)" using Cons.IH [OF t xA xsA] .
    have px: "le p x" using ge xA Cons.prems(2) False by blast
    have "\<forall>z\<in>set r. le p z"
    proof
      fix z assume z: "z \<in> set r"
      then have "le x z" using srt by simp
      moreover have "z \<in> A" using z rA by auto
      ultimately show "le p z" using trans Cons.prems(2) xA px by blast
    qed
    then show ?thesis using px srt run by simp
  qed
qed

lemma takeRun_descending:
  assumes trans: "\<forall>a\<in>A. \<forall>b\<in>A. \<forall>c\<in>A. le a b \<longrightarrow> le b c \<longrightarrow> le a c"
    and lt: "\<forall>a\<in>A. \<forall>b\<in>A. sortCompare cmp a b < 0 \<longrightarrow> le a b"
  shows "takeRun cmp True p xs = (run, rest) \<Longrightarrow> p \<in> A \<Longrightarrow> set xs \<subseteq> A
         \<Longrightarrow> sorted_wrt (\<lambda>a b. le b a) (p # run)"
proof (induction xs arbitrary: p run rest)
  case Nil
  then show ?case by simp
next
  case (Cons x xs)
  have xA: "x \<in> A" and xsA: "set xs \<subseteq> A" using Cons.prems(3) by auto
  show ?case
  proof (cases "sortCompare cmp x p < 0")
    case False
    then show ?thesis using Cons.prems(1) by (simp add: Let_def)
  next
    case True
    obtain r s where t: "takeRun cmp True x xs = (r, s)"
      by (cases "takeRun cmp True x xs") auto
    have run: "run = x # r" using Cons.prems(1) True t by (simp add: Let_def)
    have "r @ s = xs" using t by (rule takeRun_append)
    then have rA: "set r \<subseteq> A" using xsA by auto
    have srt: "sorted_wrt (\<lambda>a b. le b a) (x # r)" using Cons.IH [OF t xA xsA] .
    have xp: "le x p" using lt xA Cons.prems(2) True by blast
    have "\<forall>z\<in>set r. le z p"
    proof
      fix z assume z: "z \<in> set r"
      then have "le z x" using srt by simp
      moreover have "z \<in> A" using z rA by auto
      ultimately show "le z p" using trans Cons.prems(2) xA xp by blast
    qed
    then show ?thesis using xp srt run by simp
  qed
qed

lemma sorted_countAndMakeRun:
  assumes trans: "\<forall>a\<in>A. \<forall>b\<in>A. \<forall>c\<in>A. le a b \<longrightarrow> le b c \<longrightarrow> le a c"
    and lt: "\<forall>a\<in>A. \<forall>b\<in>A. sortCompare cmp a b < 0 \<longrightarrow> le a b"
    and ge: "\<forall>a\<in>A. \<forall>b\<in>A. \<not> sortCompare cmp a b < 0 \<longrightarrow> le b a"
    and c: "countAndMakeRun cmp xs = (run, rest)" and xsA: "set xs \<subseteq> A"
  shows "sorted_wrt le run"
proof (cases xs)
  case Nil
  then show ?thesis using c by (simp add: countAndMakeRun_def)
next
  case (Cons x xs')
  show ?thesis
  proof (cases xs')
    case Nil
    then show ?thesis using c Cons by (auto simp: countAndMakeRun_def)
  next
    case ys: (Cons y ys)
    have xA: "x \<in> A" and yA: "y \<in> A" and ysA: "set ys \<subseteq> A"
      using xsA Cons ys by auto
    obtain r s where t: "takeRun cmp (sortCompare cmp y x < 0) y ys = (r, s)"
      by (cases "takeRun cmp (sortCompare cmp y x < 0) y ys") auto
    have "r @ s = ys" using t by (rule takeRun_append)
    then have rA: "set r \<subseteq> A" using ysA by auto
    show ?thesis
    proof (cases "sortCompare cmp y x < 0")
      case True
      have run: "run = rev (x # y # r)"
        using c Cons ys t True by (simp add: countAndMakeRun_def Let_def)
      have t': "takeRun cmp True y ys = (r, s)" using t True by simp
      have srt: "sorted_wrt (\<lambda>a b. le b a) (y # r)"
        using trans lt t' yA ysA by (rule takeRun_descending)
      have yx: "le y x" using lt yA xA True by blast
      have "\<forall>z\<in>set r. le z x"
      proof
        fix z assume z: "z \<in> set r"
        then have "le z y" using srt by simp
        moreover have "z \<in> A" using z rA by auto
        ultimately show "le z x" using trans yA xA yx by blast
      qed
      then have "sorted_wrt (\<lambda>a b. le b a) (x # y # r)" using yx srt by simp
      then show ?thesis unfolding run by (simp only: sorted_wrt_rev)
    next
      case False
      have run: "run = x # y # r"
        using c Cons ys t False by (simp add: countAndMakeRun_def Let_def)
      have t': "takeRun cmp False y ys = (r, s)" using t False by simp
      have srt: "sorted_wrt le (y # r)"
        using trans ge t' yA ysA by (rule takeRun_ascending)
      have xy: "le x y" using ge yA xA False by blast
      have "\<forall>z\<in>set r. le x z"
      proof
        fix z assume z: "z \<in> set r"
        then have "le y z" using srt by simp
        moreover have "z \<in> A" using z rA by auto
        ultimately show "le x z" using trans xA yA xy by blast
      qed
      then show ?thesis using xy srt run by simp
    qed
  qed
qed

lemma set_binaryInsert: "set (binaryInsert cmp pivot srt) = insert pivot (set srt)"
  using mset_binaryInsert [of cmp pivot srt] by (metis set_mset_add_mset_insert set_mset_mset)

lemma sorted_binaryInsert:
  assumes trans: "\<forall>a\<in>A. \<forall>b\<in>A. \<forall>c\<in>A. le a b \<longrightarrow> le b c \<longrightarrow> le a c"
    and lt: "\<forall>a\<in>A. \<forall>b\<in>A. sortCompare cmp a b < 0 \<longrightarrow> le a b"
    and ge: "\<forall>a\<in>A. \<forall>b\<in>A. \<not> sortCompare cmp a b < 0 \<longrightarrow> le b a"
    and pA: "pivot \<in> A"
  shows "sorted_wrt le srt \<Longrightarrow> set srt \<subseteq> A \<Longrightarrow> sorted_wrt le (binaryInsert cmp pivot srt)"
proof (induction srt rule: length_induct)
  case (1 srt)
  let ?m = "length srt div 2"
  show ?case
  proof (cases "srt = []")
    case True
    then show ?thesis by (simp add: binaryInsert.simps)
  next
    case ne: False
    then have m: "?m < length srt" by simp
    let ?l = "take ?m srt" and ?x = "srt ! ?m" and ?r = "drop (Suc ?m) srt"
    have split: "srt = ?l @ ?x # ?r" using m by (rule id_take_nth_drop)
    have srt3: "sorted_wrt le (?l @ ?x # ?r)" using "1.prems"(1) split by simp
    have lA: "set ?l \<subseteq> A" and rA: "set ?r \<subseteq> A" and xA: "?x \<in> A"
      using "1.prems"(2) m by (auto dest: in_set_takeD in_set_dropD)
    have sl: "sorted_wrt le ?l" and sr: "sorted_wrt le ?r"
      and lx: "\<forall>a\<in>set ?l. le a ?x" and xr: "\<forall>b\<in>set ?r. le ?x b"
      and lr: "\<forall>a\<in>set ?l. \<forall>b\<in>set ?r. le a b"
      using srt3 by (auto simp: sorted_wrt_append)
    have ll: "length ?l < length srt" and lenr: "length ?r < length srt" using m by auto
    show ?thesis
    proof (cases "sortCompare cmp pivot ?x < 0")
      case True
      have eq: "binaryInsert cmp pivot srt = binaryInsert cmp pivot ?l @ ?x # ?r"
        using ne True m by (subst binaryInsert.simps) (simp add: Cons_nth_drop_Suc)
      have s1: "sorted_wrt le (binaryInsert cmp pivot ?l)"
        using "1.IH" ll sl lA by blast
      have px: "le pivot ?x" using lt pA xA True by blast
      have pr: "\<forall>b\<in>set ?r. le pivot b"
      proof
        fix b assume b: "b \<in> set ?r"
        then have "le ?x b" using xr by simp
        moreover have "b \<in> A" using b rA by auto
        ultimately show "le pivot b" using trans pA xA px by blast
      qed
      have "sorted_wrt le (binaryInsert cmp pivot ?l @ ?x # ?r)"
        using s1 sr xr lx lr px pr by (auto simp: sorted_wrt_append set_binaryInsert)
      then show ?thesis by (simp only: eq)
    next
      case False
      have eq: "binaryInsert cmp pivot srt = (?l @ [?x]) @ binaryInsert cmp pivot ?r"
        using ne False m by (subst binaryInsert.simps) (simp add: take_Suc_conv_app_nth)
      have s2: "sorted_wrt le (binaryInsert cmp pivot ?r)"
        using "1.IH" lenr sr rA by blast
      have xp: "le ?x pivot" using ge pA xA False by blast
      have lp: "\<forall>a\<in>set ?l. le a pivot"
      proof
        fix a assume a: "a \<in> set ?l"
        then have "le a ?x" using lx by simp
        moreover have "a \<in> A" using a lA by auto
        ultimately show "le a pivot" using trans pA xA xp by blast
      qed
      have "sorted_wrt le ((?l @ [?x]) @ binaryInsert cmp pivot ?r)"
        using s2 sl xr lx lr xp lp by (auto simp: sorted_wrt_append set_binaryInsert)
      then show ?thesis by (simp only: eq)
    qed
  qed
qed

lemma sorted_foldl_binaryInsert:
  assumes trans: "\<forall>a\<in>A. \<forall>b\<in>A. \<forall>c\<in>A. le a b \<longrightarrow> le b c \<longrightarrow> le a c"
    and lt: "\<forall>a\<in>A. \<forall>b\<in>A. sortCompare cmp a b < 0 \<longrightarrow> le a b"
    and ge: "\<forall>a\<in>A. \<forall>b\<in>A. \<not> sortCompare cmp a b < 0 \<longrightarrow> le b a"
  shows "sorted_wrt le acc \<Longrightarrow> set acc \<subseteq> A \<Longrightarrow> set xs \<subseteq> A
         \<Longrightarrow> sorted_wrt le (foldl (\<lambda>srt pivot. binaryInsert cmp pivot srt) acc xs)"
proof (induction xs arbitrary: acc)
  case Nil
  then show ?case by simp
next
  case (Cons x xs)
  have xA: "x \<in> A" and xsA: "set xs \<subseteq> A" using Cons.prems(3) by auto
  have s: "sorted_wrt le (binaryInsert cmp x acc)"
    using trans lt ge xA Cons.prems(1,2) by (rule sorted_binaryInsert)
  have a: "set (binaryInsert cmp x acc) \<subseteq> A"
    using xA Cons.prems(2) by (simp add: set_binaryInsert)
  show ?case using Cons.IH [OF s a xsA] by simp
qed

lemma set_insertSorted: "set (insertSorted cmp x ys) = insert x (set ys)"
  using mset_insertSorted [of cmp x ys] by (metis set_mset_add_mset_insert set_mset_mset)

lemma sorted_insertSorted:
  assumes trans: "\<forall>a\<in>A. \<forall>b\<in>A. \<forall>c\<in>A. le a b \<longrightarrow> le b c \<longrightarrow> le a c"
    and lt: "\<forall>a\<in>A. \<forall>b\<in>A. sortCompare cmp a b < 0 \<longrightarrow> le a b"
    and ge: "\<forall>a\<in>A. \<forall>b\<in>A. \<not> sortCompare cmp a b < 0 \<longrightarrow> le b a"
    and xA: "x \<in> A"
  shows "sorted_wrt le ys \<Longrightarrow> set ys \<subseteq> A \<Longrightarrow> sorted_wrt le (insertSorted cmp x ys)"
proof (induction ys)
  case Nil
  then show ?case by simp
next
  case (Cons y ys)
  have yA: "y \<in> A" and ysA: "set ys \<subseteq> A" using Cons.prems(2) by auto
  show ?case
  proof (cases "sortCompare cmp x y < 0")
    case True
    have xy: "le x y" using lt xA yA True by blast
    have "\<forall>z\<in>set ys. le x z"
    proof
      fix z assume z: "z \<in> set ys"
      then have "le y z" using Cons.prems(1) by simp
      moreover have "z \<in> A" using z ysA by auto
      ultimately show "le x z" using trans xA yA xy by blast
    qed
    then show ?thesis using True xy Cons.prems(1) by simp
  next
    case False
    have yx: "le y x" using ge xA yA False by blast
    have "sorted_wrt le (insertSorted cmp x ys)"
      using Cons.IH Cons.prems(1) ysA by simp
    then show ?thesis using False yx Cons.prems(1) by (simp add: set_insertSorted)
  qed
qed

lemma sorted_foldl_insertSorted:
  assumes trans: "\<forall>a\<in>A. \<forall>b\<in>A. \<forall>c\<in>A. le a b \<longrightarrow> le b c \<longrightarrow> le a c"
    and lt: "\<forall>a\<in>A. \<forall>b\<in>A. sortCompare cmp a b < 0 \<longrightarrow> le a b"
    and ge: "\<forall>a\<in>A. \<forall>b\<in>A. \<not> sortCompare cmp a b < 0 \<longrightarrow> le b a"
  shows "sorted_wrt le acc \<Longrightarrow> set acc \<subseteq> A \<Longrightarrow> set xs \<subseteq> A
         \<Longrightarrow> sorted_wrt le (foldl (\<lambda>acc x. insertSorted cmp x acc) acc xs)"
proof (induction xs arbitrary: acc)
  case Nil
  then show ?case by simp
next
  case (Cons x xs)
  have xA: "x \<in> A" and xsA: "set xs \<subseteq> A" using Cons.prems(3) by auto
  have s: "sorted_wrt le (insertSorted cmp x acc)"
    using trans lt ge xA Cons.prems(1,2) by (rule sorted_insertSorted)
  have a: "set (insertSorted cmp x acc) \<subseteq> A"
    using xA Cons.prems(2) by (simp add: set_insertSorted)
  show ?case using Cons.IH [OF s a xsA] by simp
qed

lemma sorted_arraySort:
  assumes trans: "\<forall>a\<in>A. \<forall>b\<in>A. \<forall>c\<in>A. le a b \<longrightarrow> le b c \<longrightarrow> le a c"
    and lt: "\<forall>a\<in>A. \<forall>b\<in>A. sortCompare cmp a b < 0 \<longrightarrow> le a b"
    and ge: "\<forall>a\<in>A. \<forall>b\<in>A. \<not> sortCompare cmp a b < 0 \<longrightarrow> le b a"
    and xsA: "set xs \<subseteq> A"
  shows "sorted_wrt le (arraySort cmp xs)"
proof (cases "length xs < 64")
  case True
  obtain run rest where c: "countAndMakeRun cmp xs = (run, rest)"
    by (cases "countAndMakeRun cmp xs") auto
  have m: "mset run + mset rest = mset xs" using c by (rule mset_countAndMakeRun)
  have "set run \<union> set rest = set xs"
    using m by (metis set_mset_mset set_mset_union)
  then have runA: "set run \<subseteq> A" and restA: "set rest \<subseteq> A" using xsA by auto
  have s: "sorted_wrt le run" using trans lt ge c xsA by (rule sorted_countAndMakeRun)
  have "sorted_wrt le (foldl (\<lambda>srt pivot. binaryInsert cmp pivot srt) run rest)"
    using trans lt ge s runA restA by (rule sorted_foldl_binaryInsert)
  then show ?thesis using True c by (simp add: arraySort_def)
next
  case False
  have "sorted_wrt le (foldl (\<lambda>acc x. insertSorted cmp x acc) [] xs)"
    using trans lt ge _ _ xsA by (rule sorted_foldl_insertSorted) simp_all
  then show ?thesis using False by (simp add: arraySort_def)
qed

subsection \<open>The order of the rendered alerts\<close>

lemma severityRank_plain:
  "plainSeverity a \<Longrightarrow> severityRank a = Num (specSeverityRank a)"
  by (auto simp: plainSeverity_def severityRank_def specSeverityRank_def propsOf_def
      emptyProps_def getProperty_def orZero_def SEVERITY_ORDER_def split: option.splits)

lemma specAlertOrder_total:
  assumes "alertTime parseDate now a \<noteq> None" "alertTime parseDate now b \<noteq> None"
  shows "specAlertOrder parseDate now a b \<or> specAlertOrder parseDate now b a"
  using assms by (auto simp: specAlertOrder_def)

lemma specAlertOrder_trans:
  assumes "specAlertOrder parseDate now a b" "specAlertOrder parseDate now b c"
  shows "specAlertOrder parseDate now a c"
proof -
  obtain ta tb tc where
    "specSeverityRank b < specSeverityRank a \<or> (specSeverityRank a = specSeverityRank b
        \<and> alertTime parseDate now a = Some ta \<and> alertTime parseDate now b = Some tb \<and> ta \<le> tb)"
    "specSeverityRank c < specSeverityRank b \<or> (specSeverityRank b = specSeverityRank c
        \<and> alertTime parseDate now b = Some tb \<and> alertTime parseDate now c = Some tc \<and> tb \<le> tc)"
    using assms
    by (cases "alertTime parseDate now a"; cases "alertTime parseDate now b";
        cases "alertTime parseDate now c") (auto simp: specAlertOrder_def)
  then show ?thesis by (auto simp: specAlertOrder_def)
qed

lemma compareAlerts_order:
  assumes "alertTime parseDate now a \<noteq> None" "alertTime parseDate now b \<noteq> None"
    and "plainSeverity a" "plainSeverity b"
  shows "(sortCompare (compareAlerts parseDate now) a b < 0) = (\<not> specAlertOrder parseDate now b a)"
  using assms(1,2)
  by (auto simp: sortCompare_def compareAlerts_def specAlertOrder_def Let_def
      severityRank_plain [OF assms(3)] severityRank_plain [OF assms(4)])

lemma sorted_alerts:
  assumes "\<forall>a\<in>set xs. alertTime parseDate now a \<noteq> None \<and> plainSeverity a"
  shows "sorted_wrt (specAlertOrder parseDate now) (arraySort (compareAlerts parseDate now) xs)"
proof (rule sorted_arraySort [where A = "{a. alertTime parseDate now a \<noteq> None \<and> plainSeverity a}"])
  let ?A = "{a. alertTime parseDate now a \<noteq> None \<and> plainSeverity a}"
  show "\<forall>a\<in>?A. \<forall>b\<in>?A. \<forall>c\<in>?A. specAlertOrder parseDate now a b \<longrightarrow>
          specAlertOrder parseDate now b c \<longrightarrow> specAlertOrder parseDate now a c"
    using specAlertOrder_trans by blast
  show "\<forall>a\<in>?A. \<forall>b\<in>?A. sortCompare (compareAlerts parseDate now) a b < 0 \<longrightarrow>
          specAlertOrder parseDate now a b"
    using compareAlerts_order specAlertOrder_total by blast
  show "\<forall>a\<in>?A. \<forall>b\<in>?A. \<not> sortCompare (compareAlerts parseDate now) a b < 0 \<longrightarrow>
          specAlertOrder parseDate now b a"
    using compareAlerts_order by blast
  show "set xs \<subseteq> ?A" using assms by auto
qed

lemma arraySort_Nil: "arraySort cmp [] = []"
  by (simp add: arraySort_def countAndMakeRun_def)

lemma render_order:
  "fetchAlertsCombined net up lat lon = Inr active \<Longrightarrow>
   fst (renderAlertsForPrimary net up parseDate now lat lon)
     = arraySort (compareAlerts parseDate now) active"
  by (simp add: renderAlertsForPrimary_def Let_def arraySort_Nil)

lemma truthyStr_Some: "truthyStr a = Some s \<Longrightarrow> truthyStr (Some s) = Some s"
  by (cases a rule: truthyStr.cases) auto

lemma truthyStr_again: "truthyStr (truthyStr a) = truthyStr a"
  by (cases a rule: truthyStr.cases) auto

lemma alertTime_eq:
  "alertTime parseDate now a =
     (case truthyStr (onset (propsOf a)) of
        Some t \<Rightarrow> parseDate t
      | None \<Rightarrow>
          (case truthyStr (effective (propsOf a)) of
             Some t \<Rightarrow> parseDate t
           | None \<Rightarrow> Some now))"
proof (cases "truthyStr (onset (propsOf a))")
  case None
  then show ?thesis by (simp add: alertTime_def orField_def truthyStr_again)
next
  case (Some t)
  then show ?thesis
    using truthyStr_Some [OF Some] by (simp add: alertTime_def orField_def)
qed

lemma sort_four:
  assumes "severity (propsOf a) = Some ''Minor''" "severity (propsOf b) = Some ''Extreme''"
    "severity (propsOf c) = Some ''Severe''" "severity (propsOf d) = Some ''Unknown''"
  shows "arraySort (compareAlerts parseDate now) [a, b, c, d] = [b, c, a, d]"
proof -
  let ?cmp = "compareAlerts parseDate now"
  have p: "plainSeverity a" "plainSeverity b" "plainSeverity c" "plainSeverity d"
    using assms by (simp_all add: plainSeverity_def objectPrototypeNames_def)
  have "specSeverityRank a = 2" "specSeverityRank b = 5" "specSeverityRank c = 4"
    "specSeverityRank d = 1"
    using assms by (simp_all add: specSeverityRank_def)
  then have r: "severityRank a = Num 2" "severityRank b = Num 5" "severityRank c = Num 4"
    "severityRank d = Num 1"
    using p by (simp_all add: severityRank_plain)
  have o: "sortCompare ?cmp b a < 0" "\<not> sortCompare ?cmp c b < 0"
    "sortCompare ?cmp c a < 0" "\<not> sortCompare ?cmp d c < 0" "\<not> sortCompare ?cmp d a < 0"
    using r by (simp_all add: sortCompare_def compareAlerts_def Let_def)
  have run: "countAndMakeRun ?cmp [a, b, c, d] = ([b, a], [c, d])"
    using o by (simp add: countAndMakeRun_def Let_def)
  have i1: "binaryInsert ?cmp c [b, a] = [b, c, a]"
    using o by (simp add: binaryInsert.simps)
  have i2: "binaryInsert ?cmp d [b, c, a] = [b, c, a, d]"
    using o by (simp add: binaryInsert.simps)
  show ?thesis by (simp add: arraySort_def run i1 i2)
qed

text \<open>
  The order of the rendered alerts, for plain severities and timestamps that are dates:
  severity downwards (Extreme 5, Severe 4, Moderate 3, Minor 2, Unknown 1, anything else
  0), and within a severity the time upwards, the time being the onset, else the
  effective time, else now. The rendered list is a rearrangement of the aggregated one.
\<close>

lemma alerts_sorted:
  assumes "fetchAlertsCombined net up lat lon = Inr active"
    and "\<forall>a\<in>set active. alertTime parseDate now a \<noteq> None \<and> plainSeverity a"
  shows "sorted_wrt (specAlertOrder parseDate now)
           (fst (renderAlertsForPrimary net up parseDate now lat lon))
       \<and> mset (fst (renderAlertsForPrimary net up parseDate now lat lon)) = mset active"
proof -
  have r: "fst (renderAlertsForPrimary net up parseDate now lat lon)
           = arraySort (compareAlerts parseDate now) active"
    using assms(1) by (rule render_order)
  have 1: "sorted_wrt (specAlertOrder parseDate now)
           (fst (renderAlertsForPrimary net up parseDate now lat lon))"
    unfolding r using assms(2) by (rule sorted_alerts)
  have 2: "mset (fst (renderAlertsForPrimary net up parseDate now lat lon)) = mset active"
    unfolding r by (rule mset_arraySort)
  show ?thesis using 1 2 by blast
qed

text \<open>
  C2. The rendered alerts are meant to be in the order of severity, highest first, with
  rank 0 for every severity that is not one of the five, and by time within a severity.
  What holds is \<open>alerts_sorted\<close>: it needs every severity to be plain and every time to
  be a date. The table is read with \<open>SEVERITY_ORDER[severity]\<close>, so a severity such as
  \<open>constructor\<close> finds an inherited function instead of nothing, the difference of the
  ranks is \<open>NaN\<close>, and such an alert compares equal to every alert of another severity:
  reported in front of an Extreme alert, it stays in front.
\<close>

theorem severity_inherited_name_unsorted:
  "fetchAlertsCombined exOddNet exUrlPathname ''30.5'' ''-97.6'' = Inr [exOdd, exFlood]
   \<and> severity (propsOf exOdd) = Some ''constructor''
   \<and> severity (propsOf exFlood) = Some ''Extreme''
   \<and> severityRank exOdd = Obj ''constructor'' \<and> severityRank exFlood = Num 5
   \<and> compareAlerts exParseDate 1714560000000 exOdd exFlood = None
   \<and> compareAlerts exParseDate 1714560000000 exFlood exOdd = None
   \<and> fst (renderAlertsForPrimary exOddNet exUrlPathname exParseDate 1714560000000
          ''30.5'' ''-97.6'') = [exOdd, exFlood]
   \<and> specSeverityRank exOdd = 0 \<and> specSeverityRank exFlood = 5
   \<and> \<not> sorted_wrt (specAlertOrder exParseDate 1714560000000)
         (fst (renderAlertsForPrimary exOddNet exUrlPathname exParseDate 1714560000000
            ''30.5'' ''-97.6''))"
  by code_simp

subsection \<open>The best observation\<close>

lemma set_candidates: "p \<in> set (candidates rs) \<longleftrightarrow> Fulfilled (Some p) \<in> set rs"
  by (induction rs rule: candidates.induct) auto

lemma score_eq:
  "score p =
     (if temperature p \<noteq> None \<and> relativeHumidity p \<noteq> None
         \<and> windSpeed p \<noteq> None \<and> windDirection p \<noteq> None then 3
      else if temperature p \<noteq> None \<and> truthyStr (textDescription p) \<noteq> None then 2
      else if (temperature p \<noteq> None) \<noteq> (truthyStr (textDescription p) \<noteq> None) then 1
      else 0)"
  by (auto simp: score_def Let_def)

lemma compareObs_score:
  "(sortCompare (compareObs parseDate now) a b < 0 \<longrightarrow> score b \<le> score a)
   \<and> (\<not> sortCompare (compareObs parseDate now) a b < 0 \<longrightarrow> score a \<le> score b)"
  by (auto simp: sortCompare_def compareObs_def Let_def split: option.splits)

lemma sorted_by_score:
  "sorted_wrt (\<lambda>a b. score b \<le> score a) (arraySort (compareObs parseDate now) xs)"
proof (rule sorted_arraySort [where A = UNIV])
  show "\<forall>a\<in>UNIV. \<forall>b\<in>UNIV. \<forall>c\<in>UNIV. score b \<le> score a \<longrightarrow> score c \<le> score b
          \<longrightarrow> score c \<le> score a"
    by simp
  show "\<forall>a\<in>UNIV. \<forall>b\<in>UNIV. sortCompare (compareObs parseDate now) a b < 0 \<longrightarrow>
          score b \<le> score a"
    using compareObs_score by blast
  show "\<forall>a\<in>UNIV. \<forall>b\<in>UNIV. \<not> sortCompare (compareObs parseDate now) a b < 0 \<longrightarrow>
          score a \<le> score b"
    using compareObs_score by blast
  show "set xs \<subseteq> UNIV" by simp
qed

text \<open>
  The order in which only the leading candidates are compared by time: two candidates of
  the same score that is not the highest count as equal.
\<close>

lemma sorted_leading:
  assumes valid: "\<forall>q\<in>set xs. (\<forall>z\<in>set xs. score z \<le> score q) \<longrightarrow> obsTime parseDate now q \<noteq> None"
  shows "sorted_wrt
           (\<lambda>a b. score b < score a \<or>
              (score a = score b \<and>
               ((\<forall>z\<in>set xs. score z \<le> score a) \<longrightarrow>
                timeLe (obsTime parseDate now a) (obsTime parseDate now b))))
           (arraySort (compareObs parseDate now) xs)"
proof (rule sorted_arraySort [where A = "set xs"])
  let ?top = "\<lambda>a. \<forall>z\<in>set xs. score z \<le> score a"
  let ?le = "\<lambda>a b. score b < score a \<or>
              (score a = score b \<and> (?top a \<longrightarrow>
                 timeLe (obsTime parseDate now a) (obsTime parseDate now b)))"
  have t: "\<exists>t. obsTime parseDate now a = Some t" if "a \<in> set xs" "?top a" for a
    using valid that by auto
  show "\<forall>a\<in>set xs. \<forall>b\<in>set xs. \<forall>c\<in>set xs. ?le a b \<longrightarrow> ?le b c \<longrightarrow> ?le a c"
  proof (intro ballI impI)
    fix a b c
    assume m: "a \<in> set xs" "b \<in> set xs" "c \<in> set xs" and ab: "?le a b" and bc: "?le b c"
    show "?le a c"
    proof (cases "score a = score b \<and> score b = score c \<and> ?top a")
      case True
      then have tops: "?top a" "?top b" "?top c" by auto
      obtain ta where ta: "obsTime parseDate now a = Some ta" using t m(1) tops(1) by blast
      obtain tb where tb: "obsTime parseDate now b = Some tb" using t m(2) tops(2) by blast
      obtain tc where tc: "obsTime parseDate now c = Some tc" using t m(3) tops(3) by blast
      have "ta \<le> tb" using ab True tops ta tb by simp
      moreover have "tb \<le> tc" using bc True tops tb tc by simp
      ultimately show ?thesis using True ta tc by simp
    next
      case False
      then show ?thesis using ab bc by auto
    qed
  qed
  show "\<forall>a\<in>set xs. \<forall>b\<in>set xs. sortCompare (compareObs parseDate now) a b < 0 \<longrightarrow> ?le a b"
  proof (intro ballI impI)
    fix a b
    assume m: "a \<in> set xs" "b \<in> set xs"
      and lt: "sortCompare (compareObs parseDate now) a b < 0"
    show "?le a b"
    proof (cases "score a = score b")
      case True
      then show ?thesis using lt
        by (auto simp: sortCompare_def compareObs_def Let_def split: option.splits)
    next
      case False
      then show ?thesis using lt
        by (auto simp: sortCompare_def compareObs_def Let_def)
    qed
  qed
  show "\<forall>a\<in>set xs. \<forall>b\<in>set xs. \<not> sortCompare (compareObs parseDate now) a b < 0 \<longrightarrow> ?le b a"
  proof (intro ballI impI)
    fix a b
    assume m: "a \<in> set xs" "b \<in> set xs"
      and ge: "\<not> sortCompare (compareObs parseDate now) a b < 0"
    show "?le b a"
    proof (cases "score a = score b")
      case True
      show ?thesis
      proof (cases "?top b")
        case top: True
        then have topa: "?top a" using True by simp
        obtain ta where ta: "obsTime parseDate now a = Some ta" using t m(1) topa by blast
        obtain tb where tb: "obsTime parseDate now b = Some tb" using t m(2) top by blast
        show ?thesis using ge True ta tb
          by (auto simp: sortCompare_def compareObs_def Let_def)
      next
        case False
        then show ?thesis using True by auto
      qed
    next
      case False
      then show ?thesis using ge
        by (auto simp: sortCompare_def compareObs_def Let_def)
    qed
  qed
  show "set xs \<subseteq> set xs" by simp
qed

lemma select_best:
  assumes ne: "candidates results \<noteq> []"
  shows "\<exists>p. selectObservation parseDate now results = Inr p
           \<and> p \<in> set (candidates results)
           \<and> (\<forall>q\<in>set (candidates results). score q \<le> score p)
           \<and> ((\<forall>q\<in>set (candidates results).
                  (\<forall>z\<in>set (candidates results). score z \<le> score q) \<longrightarrow>
                  obsTime parseDate now q \<noteq> None) \<longrightarrow>
                (\<forall>q\<in>set (candidates results). score q = score p \<longrightarrow>
                   timeLe (obsTime parseDate now p) (obsTime parseDate now q)))"
proof -
  let ?cs = "candidates results"
  let ?s = "arraySort (compareObs parseDate now) ?cs"
  let ?top = "\<lambda>a. \<forall>z\<in>set ?cs. score z \<le> score a"
  have m: "mset ?s = mset ?cs" by (rule mset_arraySort)
  then have st: "set ?s = set ?cs" by (rule mset_eq_setD)
  have "?s \<noteq> []" using m ne by auto
  then obtain p ps where s: "?s = p # ps" by (cases ?s) auto
  have sel: "selectObservation parseDate now results = Inr p"
    by (simp add: selectObservation_def s)
  have pin: "p \<in> set ?cs" using st s by auto
  have "sorted_wrt (\<lambda>a b. score b \<le> score a) (p # ps)"
    using sorted_by_score [of parseDate now ?cs] s by simp
  then have "\<forall>q\<in>set ps. score q \<le> score p" by simp
  then have top: "?top p" using st s by auto
  have tie: "\<forall>q\<in>set ?cs. score q = score p \<longrightarrow>
               timeLe (obsTime parseDate now p) (obsTime parseDate now q)"
    if valid: "\<forall>q\<in>set ?cs. ?top q \<longrightarrow> obsTime parseDate now q \<noteq> None"
  proof (intro ballI impI)
    fix q assume q: "q \<in> set ?cs" and e: "score q = score p"
    show "timeLe (obsTime parseDate now p) (obsTime parseDate now q)"
    proof (cases "q \<in> set ps")
      case True
      have "sorted_wrt
           (\<lambda>a b. score b < score a \<or>
              (score a = score b \<and>
               (?top a \<longrightarrow> timeLe (obsTime parseDate now a) (obsTime parseDate now b))))
           (p # ps)"
        using sorted_leading [OF valid] s by simp
      then have "score q < score p \<or>
              (score p = score q \<and>
               (?top p \<longrightarrow> timeLe (obsTime parseDate now p) (obsTime parseDate now q)))"
        using True by simp
      then show ?thesis using e top by auto
    next
      case False
      then have "q = p" using q st s by auto
      moreover obtain t where "obsTime parseDate now p = Some t"
        using valid pin top by auto
      ultimately show ?thesis by simp
    qed
  qed
  show ?thesis using sel pin top tie by blast
qed

lemma candidates_stationResults:
  "x \<in> set (candidates (stationResults net stations)) \<longleftrightarrow>
   (\<exists>i. Some i \<in> set (take 10 (case stations of None \<Rightarrow> [] | Some fs \<Rightarrow> fs))
        \<and> i \<noteq> [] \<and> getLatest net i = Inr (Some x))"
proof -
  let ?feats = "case stations of None \<Rightarrow> [] | Some fs \<Rightarrow> fs"
  have ids: "i \<in> set (List.map_filter truthyStr (take 10 ?feats)) \<longleftrightarrow>
             Some i \<in> set (take 10 ?feats) \<and> i \<noteq> []" for i
  proof
    assume "i \<in> set (List.map_filter truthyStr (take 10 ?feats))"
    then obtain v where v: "v \<in> set (take 10 ?feats)" "truthyStr v = Some i"
      by (auto simp: List.map_filter_def)
    then have "v = Some i \<and> i \<noteq> []" by (cases v rule: truthyStr.cases) auto
    then show "Some i \<in> set (take 10 ?feats) \<and> i \<noteq> []" using v by simp
  next
    assume a: "Some i \<in> set (take 10 ?feats) \<and> i \<noteq> []"
    then have "truthyStr (Some i) = Some i" by (cases i) auto
    then show "i \<in> set (List.map_filter truthyStr (take 10 ?feats))"
      using a by (force simp: List.map_filter_def)
  qed
  let ?ids = "List.map_filter truthyStr (take 10 ?feats)"
  let ?settle = "\<lambda>i. case getLatest net i of Inl e \<Rightarrow> Rejected | Inr p \<Rightarrow> Fulfilled p"
  have "x \<in> set (candidates (stationResults net stations)) \<longleftrightarrow>
        Fulfilled (Some x) \<in> ?settle ` set ?ids"
    by (simp add: set_candidates stationResults_def Let_def)
  also have "\<dots> \<longleftrightarrow> (\<exists>i\<in>set ?ids. getLatest net i = Inr (Some x))"
  proof
    assume "Fulfilled (Some x) \<in> ?settle ` set ?ids"
    then obtain i where "i \<in> set ?ids" "Fulfilled (Some x) = ?settle i" by blast
    then show "\<exists>i\<in>set ?ids. getLatest net i = Inr (Some x)"
      by (cases "getLatest net i") auto
  next
    assume "\<exists>i\<in>set ?ids. getLatest net i = Inr (Some x)"
    then obtain i where i: "i \<in> set ?ids" "getLatest net i = Inr (Some x)" by blast
    then have "Fulfilled (Some x) = ?settle i" by simp
    then show "Fulfilled (Some x) \<in> ?settle ` set ?ids" using i(1) by (rule image_eqI)
  qed
  finally show ?thesis using ids by auto
qed

lemma nearest_scenario:
  assumes ids: "ia \<noteq> []" "ib \<noteq> []" "ic \<noteq> []"
    and net: "getLatest net ia = Inr (Some a)" "getLatest net ib = Inr (Some b)"
      "getLatest net ic = Inl e"
    and a: "temperature a \<noteq> None" "relativeHumidity a \<noteq> None" "windSpeed a \<noteq> None"
      "windDirection a \<noteq> None"
    and b: "temperature b \<noteq> None" "relativeHumidity b = None" "windSpeed b = None"
      "windDirection b = None" "truthyStr (textDescription b) = None"
  shows "getNearestObservationParallel net parseDate now (Some [Some ia, Some ib, Some ic])
         = Inr a"
proof -
  have t: "truthyStr (Some ia) = Some ia" "truthyStr (Some ib) = Some ib"
    "truthyStr (Some ic) = Some ic"
    using ids by (cases ia; cases ib; cases ic; simp)+
  have r: "stationResults net (Some [Some ia, Some ib, Some ic])
           = [Fulfilled (Some a), Fulfilled (Some b), Rejected]"
    using t net by (simp add: stationResults_def List.map_filter_simps)
  have "score a = 3" "score b = 1" using a b by (simp_all add: score_eq)
  then have o: "\<not> sortCompare (compareObs parseDate now) b a < 0"
    by (simp add: sortCompare_def compareObs_def Let_def)
  have "arraySort (compareObs parseDate now) [a, b] = [a, b]"
    using o by (simp add: arraySort_def countAndMakeRun_def Let_def)
  then show ?thesis
    by (simp add: getNearestObservationParallel_def r selectObservation_def)
qed

text \<open>
  C3. The candidates of the observation selector are exactly the observations that the
  first ten stations with an id return with a properties body: a request that fails and
  a response without a body give none. With no candidate the selector fails. Otherwise
  it returns a candidate of the highest score; and if the timestamps of the candidates
  of the highest score are dates, a missing timestamp counting as now, it returns among
  them one with the earliest time. The score is 3 with temperature, humidity, wind speed
  and wind direction all present; otherwise 2 with temperature and a text description;
  otherwise 1 with exactly one of the two; otherwise 0. So with station A complete,
  station B with a temperature only and station C failing, the selector returns A's
  observation.
\<close>

theorem best_observation:
  "(x \<in> set (candidates (stationResults net stations)) \<longleftrightarrow>
      (\<exists>i. Some i \<in> set (take 10 (case stations of None \<Rightarrow> [] | Some fs \<Rightarrow> fs))
           \<and> i \<noteq> [] \<and> getLatest net i = Inr (Some x)))
   \<and> (candidates (stationResults net stations) = [] \<longrightarrow>
        getNearestObservationParallel net parseDate now stations = Inl NoRecentObservations)
   \<and> (candidates (stationResults net stations) \<noteq> [] \<longrightarrow>
        (\<exists>p. getNearestObservationParallel net parseDate now stations = Inr p
           \<and> p \<in> set (candidates (stationResults net stations))
           \<and> (\<forall>q\<in>set (candidates (stationResults net stations)). score q \<le> score p)
           \<and> ((\<forall>q\<in>set (candidates (stationResults net stations)).
                  (\<forall>z\<in>set (candidates (stationResults net stations)). score z \<le> score q) \<longrightarrow>
                  obsTime parseDate now q \<noteq> None) \<longrightarrow>
                (\<forall>q\<in>set (candidates (stationResults net stations)). score q = score p \<longrightarrow>
                   timeLe (obsTime parseDate now p) (obsTime parseDate now q)))))
   \<and> score x =
       (if temperature x \<noteq> None \<and> relativeHumidity x \<noteq> None
           \<and> windSpeed x \<noteq> None \<and> windDirection x \<noteq> None then 3
        else if temperature x \<noteq> None \<and> truthyStr (textDescription x) \<noteq> None then 2
        else if (temperature x \<noteq> None) \<noteq> (truthyStr (textDescription x) \<noteq> None) then 1
        else 0)
   \<and> obsTime parseDate now x =
       (case truthyStr (timestamp x) of None \<Rightarrow> Some now | Some t \<Rightarrow> parseDate t)
   \<and> (ia \<noteq> [] \<and> ib \<noteq> [] \<and> ic \<noteq> []
        \<and> getLatest net ia = Inr (Some a) \<and> getLatest net ib = Inr (Some b)
        \<and> getLatest net ic = Inl e
        \<and> temperature a \<noteq> None \<and> relativeHumidity a \<noteq> None \<and> windSpeed a \<noteq> None
        \<and> windDirection a \<noteq> None \<and> temperature b \<noteq> None \<and> relativeHumidity b = None
        \<and> windSpeed b = None \<and> windDirection b = None
        \<and> truthyStr (textDescription b) = None
      \<longrightarrow> getNearestObservationParallel net parseDate now (Some [Some ia, Some ib, Some ic])
            = Inr a)"
proof -
  have 1: "candidates (stationResults net stations) = [] \<longrightarrow>
        getNearestObservationParallel net parseDate now stations = Inl NoRecentObservations"
    by (simp add: getNearestObservationParallel_def selectObservation_def arraySort_Nil)
  have 2: "candidates (stationResults net stations) \<noteq> [] \<longrightarrow>
        (\<exists>p. getNearestObservationParallel net parseDate now stations = Inr p
           \<and> p \<in> set (candidates (stationResults net stations))
           \<and> (\<forall>q\<in>set (candidates (stationResults net stations)). score q \<le> score p)
           \<and> ((\<forall>q\<in>set (candidates (stationResults net stations)).
                  (\<forall>z\<in>set (candidates (stationResults net stations)). score z \<le> score q) \<longrightarrow>
                  obsTime parseDate now q \<noteq> None) \<longrightarrow>
                (\<forall>q\<in>set (candidates (stationResults net stations)). score q = score p \<longrightarrow>
                   timeLe (obsTime parseDate now p) (obsTime parseDate now q))))"
    using select_best [of "stationResults net stations" parseDate now]
    by (simp only: getNearestObservationParallel_def Let_def) blast
  have 3: "obsTime parseDate now x =
       (case truthyStr (timestamp x) of None \<Rightarrow> Some now | Some t \<Rightarrow> parseDate t)"
    by (simp add: obsTime_def)
  show ?thesis
    using 1 2 3 candidates_stationResults [of x net stations] score_eq [of x]
      nearest_scenario [of ia ib ic net a b e parseDate now]
    by blast
qed

subsection \<open>The properties on the example data\<close>

lemma ex_zoneCodes: "zoneCodesFromPoints exUrlPathname exPoints = [''TX209'', ''TX453'']"
  by code_simp

lemma ex_points: "getPoints exNet ''30.5'' ''-97.6'' = Inr exPoints"
  by (simp add: exNet_def)

lemma ex_fetch:
  "fetchAlertsCombined exNet exUrlPathname ''30.5'' ''-97.6'' = Inr [exHeat, exFlood, exWind]"
  by code_simp



theorem zone_filter_witness:
  "getPoints exNet ''30.5'' ''-97.6'' = Inr exPoints
   \<and> fetchAlertsCombined exNet exUrlPathname ''30.5'' ''-97.6'' = Inr [exHeat, exFlood, exWind]
   \<and> zoneCodesFromPoints exUrlPathname exPoints = [''TX209'', ''TX453'']
   \<and> zonesFromAlert exNoise = [''ZZ999'']
   \<and> exNoise \<in> set (queryFeatures exNet (ByZone ''TX209''))
   \<and> exNoise \<notin> set (queryFeatures exNet (ByPoint ''30.5'' ''-97.6''))
   \<and> exNoise \<notin> set [exHeat, exFlood, exWind]"
proof -
  have a: "zonesFromAlert exNoise = [''ZZ999'']
           \<and> exNoise \<in> set (queryFeatures exNet (ByZone ''TX209''))
           \<and> exNoise \<notin> set (queryFeatures exNet (ByPoint ''30.5'' ''-97.6''))"
    by code_simp
  show ?thesis
    using zone_filter [OF ex_points ex_fetch, of exNoise] ex_points ex_fetch ex_zoneCodes a
    by blast
qed

lemma quiet_points: "getPoints exQuietNet ''30.5'' ''-97.6'' = Inr exPoints"
  by (simp add: exQuietNet_def)

theorem no_alerts_is_empty_witness:
  "getPoints exQuietNet ''30.5'' ''-97.6'' = Inr exPoints
   \<and> queryFeatures exQuietNet (ByPoint ''30.5'' ''-97.6'') = []
   \<and> queryFeatures exQuietNet (ByZone ''TX209'') = [exNoise]
   \<and> queryFeatures exQuietNet (ByZone ''TX453'') = []
   \<and> fetchAlertsCombined exQuietNet exUrlPathname ''30.5'' ''-97.6'' = Inr []
   \<and> renderAlertsForPrimary exQuietNet exUrlPathname exParseDate 0 ''30.5'' ''-97.6''
       = ([], \<lparr>activeCount = 0, hadError = False\<rparr>)"
proof -
  have a: "queryFeatures exQuietNet (ByPoint ''30.5'' ''-97.6'') = []"
    by code_simp
  have b: "\<forall>z\<in>set (zoneCodesFromPoints exUrlPathname exPoints).
             zoneFiltered (zoneCodesFromPoints exUrlPathname exPoints)
               (queryFeatures exQuietNet (ByZone z)) = []"
    unfolding ex_zoneCodes by code_simp
  have c: "queryFeatures exQuietNet (ByZone ''TX209'') = [exNoise]
           \<and> queryFeatures exQuietNet (ByZone ''TX453'') = []"
    by code_simp
  show ?thesis
    using no_alerts_is_empty [OF quiet_points a b, of exParseDate 0] quiet_points a c
    by blast
qed

lemma alerts_sorted_example:
  "(\<forall>a\<in>set [exHeat, exFlood, exWind].
       alertTime exParseDate 1714560000000 a \<noteq> None \<and> plainSeverity a)
   \<and> fst (renderAlertsForPrimary exNet exUrlPathname exParseDate 1714560000000 ''30.5'' ''-97.6'')
       = [exFlood, exWind, exHeat]
   \<and> sorted_wrt (specAlertOrder exParseDate 1714560000000) [exFlood, exWind, exHeat]"
proof -
  have v: "\<forall>a\<in>set [exHeat, exFlood, exWind].
            alertTime exParseDate 1714560000000 a \<noteq> None \<and> plainSeverity a"
    by code_simp
  have r: "fst (renderAlertsForPrimary exNet exUrlPathname exParseDate 1714560000000
             ''30.5'' ''-97.6'') = [exFlood, exWind, exHeat]"
    by code_simp
  have "sorted_wrt (specAlertOrder exParseDate 1714560000000)
          (fst (renderAlertsForPrimary exNet exUrlPathname exParseDate 1714560000000
             ''30.5'' ''-97.6''))"
    using alerts_sorted [OF ex_fetch v] by blast
  then have s: "sorted_wrt (specAlertOrder exParseDate 1714560000000) [exFlood, exWind, exHeat]"
    by (simp only: r)
  show ?thesis using v r s by blast
qed

text \<open>
  Stations X and Z report a temperature only, Z three hours before X: Z's observation is
  returned. Station A is complete and station C times out: A's observation is returned.
\<close>

theorem best_observation_witness:
  "candidates (stationResults exGarbledNet (Some [Some ''X'', Some ''Z''])) = [exObsX, exObsB]
   \<and> score exObsX = 1 \<and> score exObsB = 1
   \<and> obsTime exParseDate 1714560000000 exObsX = Some 1714554000000
   \<and> obsTime exParseDate 1714560000000 exObsB = Some 1714543200000
   \<and> getNearestObservationParallel exGarbledNet exParseDate 1714560000000
        (Some [Some ''X'', Some ''Z'']) = Inr exObsB
   \<and> score exObsA = 3
   \<and> getLatest exGarbledNet ''C'' = Inl RequestTimedOut
   \<and> getNearestObservationParallel exGarbledNet exParseDate 1714560000000
        (Some [Some ''A'', Some ''Z'', Some ''C'']) = Inr exObsA"
proof -
  let ?now = "1714560000000 :: int"
  let ?cs = "candidates (stationResults exGarbledNet (Some [Some ''X'', Some ''Z'']))"
  let ?r = "getNearestObservationParallel exGarbledNet exParseDate ?now
              (Some [Some ''X'', Some ''Z''])"
  have c: "?cs = [exObsX, exObsB]" by code_simp
  have s: "score exObsX = 1 \<and> score exObsB = 1 \<and> score exObsA = 3" by code_simp
  have t: "obsTime exParseDate ?now exObsX = Some 1714554000000
           \<and> obsTime exParseDate ?now exObsB = Some 1714543200000"
    by code_simp
  have n: "getLatest exGarbledNet ''A'' = Inr (Some exObsA)
           \<and> getLatest exGarbledNet ''Z'' = Inr (Some exObsB)
           \<and> getLatest exGarbledNet ''C'' = Inl RequestTimedOut"
    by code_simp
  have f: "temperature exObsA \<noteq> None \<and> relativeHumidity exObsA \<noteq> None
           \<and> windSpeed exObsA \<noteq> None \<and> windDirection exObsA \<noteq> None
           \<and> temperature exObsB \<noteq> None \<and> relativeHumidity exObsB = None
           \<and> windSpeed exObsB = None \<and> windDirection exObsB = None
           \<and> truthyStr (textDescription exObsB) = None"
    by (simp add: exObsA_def exObsB_def)
  note b = best_observation [where net = exGarbledNet and parseDate = exParseDate
      and now = ?now and stations = "Some [Some ''X'', Some ''Z'']"
      and ia = "''A''" and ib = "''Z''" and ic = "''C''" and a = exObsA and b = exObsB
      and e = RequestTimedOut and x = exObsX]
  have v: "\<forall>q\<in>set ?cs. (\<forall>z\<in>set ?cs. score z \<le> score q) \<longrightarrow>
             obsTime exParseDate ?now q \<noteq> None"
    using t by (simp add: c)
  have ne: "?cs \<noteq> []" by (simp add: c)
  from b ne v obtain p where p: "?r = Inr p" "p \<in> set ?cs"
    "\<forall>q\<in>set ?cs. score q = score p \<longrightarrow>
       timeLe (obsTime exParseDate ?now p) (obsTime exParseDate ?now q)"
    by blast
  have "p = exObsB"
  proof (rule ccontr)
    assume "p \<noteq> exObsB"
    then have "p = exObsX" using p(2) c by simp
    then have "timeLe (obsTime exParseDate ?now exObsX) (obsTime exParseDate ?now exObsB)"
      using p(3) c s by simp
    then show False using t by simp
  qed
  then have r: "?r = Inr exObsB" using p(1) by simp
  have sc: "getNearestObservationParallel exGarbledNet exParseDate ?now
              (Some [Some ''A'', Some ''Z'', Some ''C'']) = Inr exObsA"
    using b n f by simp
  show ?thesis using c s t r n sc by simp
qed

text \<open>
  With a timestamp that is no date the older observation can lose. Stations X, Y and Z
  report a temperature only, X at 09:00, Y with a timestamp that is no date, Z at 06:00.
  The comparisons with Y give \<open>NaN\<close>, the sort leaves the three in the order of the
  requests, and X's observation is returned although Z's has the same score and is
  older.
\<close>

theorem best_observation_counterexample:
  "candidates (stationResults exGarbledNet (Some [Some ''X'', Some ''Y'', Some ''Z'']))
     = [exObsX, exObsY, exObsB]
   \<and> score exObsX = 1 \<and> score exObsY = 1 \<and> score exObsB = 1
   \<and> obsTime exParseDate 1714560000000 exObsX = Some 1714554000000
   \<and> obsTime exParseDate 1714560000000 exObsY = None
   \<and> obsTime exParseDate 1714560000000 exObsB = Some 1714543200000
   \<and> getNearestObservationParallel exGarbledNet exParseDate 1714560000000
        (Some [Some ''X'', Some ''Y'', Some ''Z'']) = Inr exObsX"
  by code_simp

lemma ex_resolve:
  "resolveEndpointsForPoint exNet exWorld ''30.5'' ''-97.6'' = (Inr exEndpoints, exWorld1)"
proof -
  have "fst (resolveEndpointsForPoint exNet exWorld ''30.5'' ''-97.6'') = Inr exEndpoints"
    by code_simp
  then show ?thesis by (simp add: exWorld1_def prod_eq_iff)
qed

theorem resolve_twice_witness:
  "resolveEndpointsForPoint exNet exWorld ''30.5'' ''-97.6'' = (Inr exEndpoints, exWorld1)
   \<and> pointsRequests exWorld1 = [(''30.5'', ''-97.6'')]
   \<and> resolveEndpointsForPoint exDownNet exWorld1 ''30.5'' ''-97.6'' = (Inr exEndpoints, exWorld1)
   \<and> fst (resolveEndpointsForPoint exDownNet exWorld ''30.5'' ''-97.6'') = Inl FetchError"
proof -
  have r: "pointsRequests exWorld1 = [(''30.5'', ''-97.6'')]"
    by code_simp
  have d: "fst (resolveEndpointsForPoint exDownNet exWorld ''30.5'' ''-97.6'') = Inl FetchError"
    by code_simp
  show ?thesis
    using resolve_twice [OF ex_resolve, of exDownNet exNet "[]"] ex_resolve r d
    by blast
qed

end
